theory Spec2Isabelle
  imports Main "HOL-Library.Word"
begin

section \<open>The SCP transport logic of rs__transport.c\<close>

text \<open>
  The file \<^verbatim>\<open>src/rs__transport.c\<close> holds five callbacks of the Rig SCP library:
  \<^verbatim>\<open>rs__attempt_transmission\<close>, \<^verbatim>\<open>rs__timer_cb\<close>, \<^verbatim>\<open>rs__udp_send_cb\<close>,
  \<^verbatim>\<open>rs__udp_recv_alloc_cb\<close> and \<^verbatim>\<open>rs__udp_recv_cb\<close>. Each is embedded as a function
  on the connection state. A channel pointer \<^verbatim>\<open>os\<close> is the index of the channel in
  \<^verbatim>\<open>conn->outstanding\<close>; the back pointer \<^verbatim>\<open>os->conn\<close> is the one connection of the
  state. A function returns the calls it makes on its collaborators, in order, and the
  state it leaves; \<open>None\<close> stands for a read outside the channel pool, where the C
  program has no defined behaviour.
\<close>

subsection \<open>Data\<close>

text \<open>
  Modelled from the spec: the declaration of \<^verbatim>\<open>rs__outstanding_t\<close> (rs__internal.h) is
  missing from the sources. The fields are those rs__transport.c reads or writes, under
  the names the code gives them (the spec's \<open>send_in_flight\<close> is \<^verbatim>\<open>send_req_active\<close>).
  The sequence number is 16 bits wide, as the spec says and as the \<^verbatim>\<open>uint16_t\<close> of line
  129 that it is compared with; the spec gives the attempt counter no width, and it is
  taken as a C \<^verbatim>\<open>unsigned int\<close> (32 bits, \<open>+\<close> wraps).
\<close>

record rs__outstanding_t =
  active :: bool
  seq_num :: "16 word"
  n_tries :: "32 word"
  send_req_active :: bool
  cancelled :: bool

text \<open>
  Modelled from the spec: the declaration of \<^verbatim>\<open>rs_conn_t\<close> is missing from the sources
  as well. The fields are those rs__transport.c reads: \<^verbatim>\<open>conn->timeout\<close> (the per-attempt
  timeout in milliseconds), \<^verbatim>\<open>conn->n_tries\<close> (the maximum number of attempts; here
  \<open>conn_n_tries\<close>, the name \<open>n_tries\<close> being the channel's), \<^verbatim>\<open>conn->n_outstanding\<close>,
  \<^verbatim>\<open>conn->outstanding\<close> (the channel pool) and \<^verbatim>\<open>conn->free\<close> (the spec's \<open>freeing\<close>
  flag). The counts are taken as C \<^verbatim>\<open>unsigned int\<close>, the type hello.c gives the
  \<^verbatim>\<open>n_outstanding\<close> it passes to \<^verbatim>\<open>rs_init\<close>, and the timeout as the \<^verbatim>\<open>uint64_t\<close> that
  \<^verbatim>\<open>uv_timer_start\<close> takes.
\<close>

record rs_conn_t =
  timeout :: "64 word"
  conn_n_tries :: "32 word"
  n_outstanding :: "32 word"
  outstanding :: "rs__outstanding_t list"
  free :: bool

text \<open>
  libuv's \<^verbatim>\<open>uv_buf_t\<close>: \<open>base = None\<close> is the null pointer, otherwise the bytes the
  pointer leads to; \<open>len\<close> is a \<^verbatim>\<open>size_t\<close>.
\<close>

record uv_buf_t =
  base :: "8 word list option"
  len :: nat

text \<open>
  The calls rs__transport.c makes on code outside the file, with the arguments that
  matter: the channel a call is for, the result code given to
  \<^verbatim>\<open>rs__cancel_outstanding\<close>, the period and the repeat argument of
  \<^verbatim>\<open>uv_timer_start\<close>, the buffer that \<^verbatim>\<open>rs__unpack_scp_packet_seq_num\<close> reads, the
  buffer handed to \<^verbatim>\<open>rs__process_response\<close>, and libc's \<^verbatim>\<open>free\<close> of the receive
  buffer.
\<close>

datatype call =
    Uv_udp_send nat
  | Rs__cancel_outstanding nat int
  | Rs_free
  | Rs__process_request_queue
  | Uv_timer_start nat "64 word" "64 word"
  | Rs__unpack_scp_packet_seq_num uv_buf_t
  | Rs__process_response nat uv_buf_t
  | Free_base

text \<open>
  The collaborators themselves are not in rs__transport.c and are parameters of the
  model: what \<^verbatim>\<open>uv_udp_send\<close> returns for the state it is called in, the state that
  \<^verbatim>\<open>rs__cancel_outstanding\<close>, \<^verbatim>\<open>rs_free\<close>, \<^verbatim>\<open>rs__process_request_queue\<close> and
  \<^verbatim>\<open>rs__process_response\<close> leave (they may re-enter this file), the sequence number
  \<^verbatim>\<open>rs__unpack_scp_packet_seq_num\<close> reads, the value of the macro
  \<^verbatim>\<open>RS__SIZEOF_SCP_PACKET\<close> (a size, so a natural number), and whether \<^verbatim>\<open>malloc\<close>
  succeeds.
\<close>

record env =
  uv_udp_send :: "rs_conn_t \<Rightarrow> nat \<Rightarrow> int"
  rs__cancel_outstanding :: "rs_conn_t \<Rightarrow> nat \<Rightarrow> int \<Rightarrow> rs_conn_t"
  rs_free :: "rs_conn_t \<Rightarrow> rs_conn_t"
  rs__process_request_queue :: "rs_conn_t \<Rightarrow> rs_conn_t"
  rs__process_response :: "rs_conn_t \<Rightarrow> nat \<Rightarrow> uv_buf_t \<Rightarrow> rs_conn_t"
  rs__unpack_scp_packet_seq_num :: "uv_buf_t \<Rightarrow> 16 word"
  RS__SIZEOF_SCP_PACKET :: "nat \<Rightarrow> nat \<Rightarrow> nat"
  malloc :: "nat \<Rightarrow> 8 word list option"

subsection \<open>Reading and writing a channel\<close>

definition chan :: "rs_conn_t \<Rightarrow> nat \<Rightarrow> rs__outstanding_t option" where
  "chan conn i =
     (if i < length (outstanding conn) then Some (outstanding conn ! i) else None)"

definition set_chan :: "rs_conn_t \<Rightarrow> nat \<Rightarrow> rs__outstanding_t \<Rightarrow> rs_conn_t" where
  "set_chan conn i os = conn\<lparr>outstanding := (outstanding conn)[i := os]\<rparr>"

subsection \<open>rs__attempt_transmission and rs__timer_cb\<close>

text \<open>
  Lines 20 to 45. The states \<open>conn1\<close>, \<open>conn2\<close> and \<open>conn3\<close> are the connection after
  \<^verbatim>\<open>++os->n_tries\<close>, after \<^verbatim>\<open>os->send_req_active = true\<close> and after
  \<^verbatim>\<open>os->send_req_active = false\<close>.
\<close>

definition rs__attempt_transmission ::
  "env \<Rightarrow> rs_conn_t \<Rightarrow> nat \<Rightarrow> (call list \<times> rs_conn_t) option" where
  "rs__attempt_transmission env conn i =
     (case chan conn i of
        None \<Rightarrow> None
      | Some os \<Rightarrow>
          if \<not> active os then Some ([], conn)
          else
            let os1 = os\<lparr>n_tries := n_tries os + 1\<rparr>;
                conn1 = set_chan conn i os1
            in if n_tries os1 \<le> conn_n_tries conn1 then
                 let os2 = os1\<lparr>send_req_active := True\<rparr>;
                     conn2 = set_chan conn1 i os2
                 in if uv_udp_send env conn2 i \<noteq> 0 then
                      let conn3 = set_chan conn2 i (os2\<lparr>send_req_active := False\<rparr>)
                      in Some ([Uv_udp_send i, Rs__cancel_outstanding i (- 1)],
                               rs__cancel_outstanding env conn3 i (- 1))
                    else Some ([Uv_udp_send i], conn2)
               else Some ([Rs__cancel_outstanding i (- 1)],
                          rs__cancel_outstanding env conn1 i (- 1)))"

text \<open>Lines 48 to 56: the timer's \<^verbatim>\<open>data\<close> is the channel, \<^verbatim>\<open>os->conn\<close> its connection.\<close>

definition rs__timer_cb :: "env \<Rightarrow> rs_conn_t \<Rightarrow> nat \<Rightarrow> (call list \<times> rs_conn_t) option" where
  "rs__timer_cb env conn i = rs__attempt_transmission env conn i"

subsection \<open>rs__udp_send_cb\<close>

text \<open>Lines 59 to 95; \<open>conn1\<close> is the connection after \<^verbatim>\<open>os->send_req_active = false\<close>.\<close>

definition rs__udp_send_cb ::
  "env \<Rightarrow> rs_conn_t \<Rightarrow> nat \<Rightarrow> int \<Rightarrow> (call list \<times> rs_conn_t) option" where
  "rs__udp_send_cb env conn i status =
     (case chan conn i of
        None \<Rightarrow> None
      | Some os \<Rightarrow>
          let os1 = os\<lparr>send_req_active := False\<rparr>;
              conn1 = set_chan conn i os1
          in if free conn1 then Some ([Rs_free], rs_free env conn1)
             else if active os1 \<and> cancelled os1 then
               let os2 = os1\<lparr>active := False\<rparr>;
                   os3 = os2\<lparr>cancelled := False\<rparr>;
                   conn3 = set_chan conn1 i os3
               in Some ([Rs__process_request_queue], rs__process_request_queue env conn3)
             else if status \<noteq> 0 then
               Some ([Rs__cancel_outstanding i (- 1)],
                     rs__cancel_outstanding env conn1 i (- 1))
             else Some ([Uv_timer_start i (timeout conn1) 0], conn1))"

subsection \<open>rs__udp_recv_alloc_cb and rs__udp_recv_cb\<close>

text \<open>Lines 98 to 109: the buffer the callback fills in.\<close>

definition rs__udp_recv_alloc_cb :: "env \<Rightarrow> nat \<Rightarrow> uv_buf_t" where
  "rs__udp_recv_alloc_cb env suggested_size =
     (let b = malloc env suggested_size
      in if b \<noteq> None then \<lparr>base = b, len = suggested_size\<rparr>
         else \<lparr>base = b, len = 0\<rparr>)"

text \<open>
  The loop of lines 130 to 138, from index \<open>i\<close> on. It ends at the first active channel
  with the sequence number \<open>seq\<close>, whose response is processed with the buffer \<open>b\<close>
  (the copy \<^verbatim>\<open>buf_\<close> with \<^verbatim>\<open>len = nread\<close>), or at \<^verbatim>\<open>conn->n_outstanding\<close>. The loop
  counter is a C \<^verbatim>\<open>int\<close>; the model counts in natural numbers, which is the same for a
  pool of fewer than \<open>2 ^ 31\<close> channels. A channel read beyond the end of the pool is
  \<open>None\<close>.
\<close>

function recv_scan ::
  "env \<Rightarrow> rs_conn_t \<Rightarrow> uv_buf_t \<Rightarrow> 16 word \<Rightarrow> nat \<Rightarrow> (call list \<times> rs_conn_t) option" where
  "recv_scan env conn b seq i =
     (if i < unat (n_outstanding conn) then
        (case chan conn i of
           None \<Rightarrow> None
         | Some os \<Rightarrow>
             if active os \<and> seq_num os = seq
             then Some ([Rs__process_response i b], rs__process_response env conn i b)
             else recv_scan env conn b seq (i + 1))
      else Some ([], conn))"
  by pat_completeness auto
termination
  by (relation "measure (\<lambda>(env, conn, b, seq, i). unat (n_outstanding conn) - i)") auto

text \<open>
  Lines 112 to 144. \<open>nread\<close> is a \<^verbatim>\<open>ssize_t\<close>: a byte count, 0 or a negative error
  code. The macro \<^verbatim>\<open>RS__SIZEOF_SCP_PACKET\<close> is defined outside the sources; the
  comparison of line 126 is taken as the signed one that the comment of lines 122 to
  125 describes. The receive buffer is freed last, when its base is not null.
\<close>

definition free_base :: "uv_buf_t \<Rightarrow> call list" where
  "free_base buf = (if base buf \<noteq> None then [Free_base] else [])"

definition rs__udp_recv_cb ::
  "env \<Rightarrow> rs_conn_t \<Rightarrow> int \<Rightarrow> uv_buf_t \<Rightarrow> (call list \<times> rs_conn_t) option" where
  "rs__udp_recv_cb env conn nread buf =
     (if nread \<ge> int (RS__SIZEOF_SCP_PACKET env 0 0) then
        (case recv_scan env conn (buf\<lparr>len := nat nread\<rparr>)
                (rs__unpack_scp_packet_seq_num env buf) 0 of
           None \<Rightarrow> None
         | Some (calls, conn') \<Rightarrow>
             Some (Rs__unpack_scp_packet_seq_num buf # calls @ free_base buf, conn'))
      else Some (free_base buf, conn))"

subsection \<open>An environment to run the functions in\<close>

text \<open>
  A concrete environment for evaluating the functions: \<^verbatim>\<open>uv_udp_send\<close> returns \<open>rc\<close>,
  the sequence number is the 16-bit little-endian value of the first two bytes of the
  datagram, the smallest packet has \<open>m\<close> bytes, \<^verbatim>\<open>malloc\<close> gives zeroed memory unless
  \<open>oom\<close> holds, and the other collaborators leave the state as it is.
\<close>

definition run_env :: "int \<Rightarrow> nat \<Rightarrow> bool \<Rightarrow> env" where
  "run_env rc m oom =
     \<lparr>uv_udp_send = (\<lambda>conn i. rc),
      rs__cancel_outstanding = (\<lambda>conn i r. conn),
      rs_free = (\<lambda>conn. conn),
      rs__process_request_queue = (\<lambda>conn. conn),
      rs__process_response = (\<lambda>conn i b. conn),
      rs__unpack_scp_packet_seq_num =
        (\<lambda>b. case base b of
                Some (lo # hi # bs) \<Rightarrow> word_of_nat (unat lo + 256 * unat hi)
              | _ \<Rightarrow> 0),
      RS__SIZEOF_SCP_PACKET = (\<lambda>n_args data_len. m + 4 * n_args + data_len),
      malloc = (\<lambda>n. if oom then None else Some (replicate n 0))\<rparr>"

definition idle_chan :: rs__outstanding_t where
  "idle_chan =
     \<lparr>active = False, seq_num = 0, n_tries = 0, send_req_active = False,
      cancelled = False\<rparr>"

definition busy_chan :: "16 word \<Rightarrow> 32 word \<Rightarrow> rs__outstanding_t" where
  "busy_chan s n =
     \<lparr>active = True, seq_num = s, n_tries = n, send_req_active = False,
      cancelled = False\<rparr>"

definition conn_of :: "rs__outstanding_t list \<Rightarrow> rs_conn_t" where
  "conn_of cs =
     \<lparr>timeout = 500, conn_n_tries = 3, n_outstanding = word_of_nat (length cs),
      outstanding = cs, free = False\<rparr>"

text \<open>
  A pool of three channels, the second and the third both active with sequence number
  7, and a datagram of 14 bytes whose sequence number is \<open>lo\<close>, in a receive buffer
  of 65536 bytes.
\<close>

definition pool3 :: rs_conn_t where
  "pool3 = conn_of [idle_chan, busy_chan 7 1, busy_chan 7 1]"

definition dgram :: "8 word \<Rightarrow> uv_buf_t" where
  "dgram lo = \<lparr>base = Some [lo, 0, 0, 0, 0, 0, 0, 0, 0, 0, 0, 0, 0, 0], len = 65536\<rparr>"

subsection \<open>Reading a list of calls\<close>

text \<open>
  What the properties below ask of a list of calls: whether a call starts a timer,
  whether it hands a response to the response processor, and which result codes were
  given to \<^verbatim>\<open>rs__cancel_outstanding\<close>.
\<close>

fun is_timer_start :: "call \<Rightarrow> bool" where
  "is_timer_start (Uv_timer_start i t r) = True"
| "is_timer_start c = False"

fun is_response :: "call \<Rightarrow> bool" where
  "is_response (Rs__process_response i b) = True"
| "is_response c = False"

fun cancel_codes :: "call list \<Rightarrow> int list" where
  "cancel_codes [] = []"
| "cancel_codes (Rs__cancel_outstanding i rc # cs) = rc # cancel_codes cs"
| "cancel_codes (c # cs) = cancel_codes cs"

text \<open>Channel \<open>j\<close> of the pool is active and holds the sequence number \<open>seq\<close>.\<close>

definition matches :: "rs_conn_t \<Rightarrow> 16 word \<Rightarrow> nat \<Rightarrow> bool" where
  "matches conn seq j =
     (case chan conn j of None \<Rightarrow> False | Some os \<Rightarrow> active os \<and> seq_num os = seq)"

subsection \<open>The collaborators as the spec describes them\<close>

text \<open>
  The outcome a completion callback is told: the result code of a cancellation, or the
  response that arrived.
\<close>

datatype outcome = Failed int | Answered uv_buf_t

text \<open>
  Modelled from the spec: \<^verbatim>\<open>rs__cancel_outstanding\<close> is missing from the sources. Spec 4.2,
  Cancellation of a channel: "cancel the retransmit timer. If \<open>send_in_flight\<close>, mark
  \<open>cancelled = true\<close> and defer completion until the send callback fires. Otherwise set
  \<open>active = false\<close> and invoke the completion callback with the given result code; then
  run the dispatch loop to admit queued work." The completion callback \<open>cb\<close> is the
  user's and the dispatch loop is missing too: both are parameters. The timer is libuv's
  state and is kept by \<open>timers_after\<close> below. The code calls the function with a
  channel of the pool; for an index outside it the model leaves the state as it is.
\<close>

definition spec_cancel_outstanding ::
  "(rs_conn_t \<Rightarrow> nat \<Rightarrow> outcome \<Rightarrow> rs_conn_t) \<Rightarrow> (rs_conn_t \<Rightarrow> rs_conn_t)
   \<Rightarrow> rs_conn_t \<Rightarrow> nat \<Rightarrow> int \<Rightarrow> rs_conn_t" where
  "spec_cancel_outstanding cb dispatch conn i rc =
     (case chan conn i of
        None \<Rightarrow> conn
      | Some os \<Rightarrow>
          if send_req_active os then set_chan conn i (os\<lparr>cancelled := True\<rparr>)
          else dispatch (cb (set_chan conn i (os\<lparr>active := False\<rparr>)) i (Failed rc)))"

text \<open>
  Modelled from the spec: \<^verbatim>\<open>rs__process_response\<close> is missing from the sources. Spec 4.2,
  Receive callback: "If found, cancel its retransmit timer and invoke the response
  processor", and the state table of a channel: a matching datagram takes a Waiting
  channel (active, no send in flight) to "Idle + ok cb", and the rows Sending and
  Sending+cancelled have no transition for it. Spec 4.4: the dispatch loop dequeues
  "when a channel becomes idle".
\<close>

definition spec_process_response ::
  "(rs_conn_t \<Rightarrow> nat \<Rightarrow> outcome \<Rightarrow> rs_conn_t) \<Rightarrow> (rs_conn_t \<Rightarrow> rs_conn_t)
   \<Rightarrow> rs_conn_t \<Rightarrow> nat \<Rightarrow> uv_buf_t \<Rightarrow> rs_conn_t" where
  "spec_process_response cb dispatch conn i b =
     (case chan conn i of
        None \<Rightarrow> conn
      | Some os \<Rightarrow>
          if send_req_active os then conn
          else dispatch (cb (set_chan conn i (os\<lparr>active := False\<rparr>)) i (Answered b)))"

text \<open>
  An environment \<open>e\<close> with these two in the place of its own: \<^verbatim>\<open>uv_udp_send\<close>, the
  codec, \<^verbatim>\<open>malloc\<close>, \<^verbatim>\<open>rs_free\<close> and the dispatch loop \<^verbatim>\<open>rs__process_request_queue\<close>
  stay parameters.
\<close>

definition spec_env :: "(rs_conn_t \<Rightarrow> nat \<Rightarrow> outcome \<Rightarrow> rs_conn_t) \<Rightarrow> env \<Rightarrow> env" where
  "spec_env cb e =
     e\<lparr>rs__cancel_outstanding := spec_cancel_outstanding cb (rs__process_request_queue e),
       rs__process_response := spec_process_response cb (rs__process_request_queue e)\<rparr>"

text \<open>
  Modelled from the spec: what the spec says of the missing dispatch loop, as far as the
  channels in use go. Spec 4.2, Dispatch loop: "while the queue is non-empty and an
  inactive channel exists, pop a request, select any inactive channel, ... mark
  \<open>active = true\<close>, \<open>n_tries = 0\<close>, record callback, and call \<open>attempt_transmission\<close>";
  spec 3 and 8: "No channel is ever reused while \<open>send_in_flight\<close> is true". So a
  function \<open>f\<close> of this kind leaves every channel that is active when it starts as it
  is, and a channel it leaves inactive with a send in flight is one it has not touched.
  The same is asked of the user's callbacks, which are given a completed request and
  may enqueue new ones.
\<close>

definition touches_idle_only :: "(rs_conn_t \<Rightarrow> rs_conn_t) \<Rightarrow> bool" where
  "touches_idle_only f \<longleftrightarrow>
     (\<forall>conn j os. chan conn j = Some os \<and> active os \<longrightarrow> chan (f conn) j = Some os)
   \<and> (\<forall>conn j os. chan (f conn) j = Some os \<and> send_req_active os \<and> \<not> active os
          \<longrightarrow> chan conn j = Some os)"

definition well_behaved :: "(rs_conn_t \<Rightarrow> nat \<Rightarrow> outcome \<Rightarrow> rs_conn_t) \<Rightarrow> env \<Rightarrow> bool" where
  "well_behaved cb e \<longleftrightarrow>
     touches_idle_only (rs__process_request_queue e)
   \<and> (\<forall>i out. touches_idle_only (\<lambda>conn. cb conn i out))"

text \<open>
  The retransmit timers of the channels are libuv's state: the set of channels whose
  \<^verbatim>\<open>timer_handle\<close> is armed. \<^verbatim>\<open>uv_timer_start\<close> arms the timer of its channel;
  modelled from the spec, \<^verbatim>\<open>rs__cancel_outstanding\<close> and the response path ("cancel
  the retransmit timer", "cancel its retransmit timer") stop it.
\<close>

fun timers_after :: "call list \<Rightarrow> nat set \<Rightarrow> nat set" where
  "timers_after [] T = T"
| "timers_after (Uv_timer_start i t r # cs) T = timers_after cs (insert i T)"
| "timers_after (Rs__cancel_outstanding i rc # cs) T = timers_after cs (T - {i})"
| "timers_after (Rs__process_response i b # cs) T = timers_after cs (T - {i})"
| "timers_after (c # cs) T = timers_after cs T"

text \<open>
  What the event loop can deliver on a connection that is not freeing: a timer fires
  only while it is armed, and, being one-shot (repeat 0), is no longer armed when
  \<^verbatim>\<open>rs__timer_cb\<close> runs; a send completion arrives only for a channel with a send
  in flight; a datagram may arrive at any time; the library may cancel an active
  channel from outside rs__transport.c (\<open>rs__cancel_outstanding\<close> as above, which
  stops the timer); and it may run its dispatch loop, as when a request is enqueued.
  \<open>None\<close>: the event cannot happen in that state, the connection is freeing, or a
  callback read outside the pool.
\<close>

datatype event =
    Timer_fires nat
  | Send_completes nat int
  | Datagram int uv_buf_t
  | Cancel nat int
  | Dispatch

definition after_cb ::
  "nat set \<Rightarrow> (call list \<times> rs_conn_t) option \<Rightarrow> (rs_conn_t \<times> nat set) option" where
  "after_cb T r =
     (case r of None \<Rightarrow> None | Some (calls, conn') \<Rightarrow> Some (conn', timers_after calls T))"

definition exec ::
  "(rs_conn_t \<Rightarrow> nat \<Rightarrow> outcome \<Rightarrow> rs_conn_t) \<Rightarrow> env \<Rightarrow> event
   \<Rightarrow> rs_conn_t \<times> nat set \<Rightarrow> (rs_conn_t \<times> nat set) option" where
  "exec cb e ev s =
     (case s of (conn, T) \<Rightarrow>
        if free conn then None
        else
          (case ev of
             Timer_fires i \<Rightarrow>
               if i \<in> T then after_cb (T - {i}) (rs__timer_cb (spec_env cb e) conn i)
               else None
           | Send_completes i status \<Rightarrow>
               (case chan conn i of
                  None \<Rightarrow> None
                | Some os \<Rightarrow>
                    if send_req_active os
                    then after_cb T (rs__udp_send_cb (spec_env cb e) conn i status)
                    else None)
           | Datagram nread buf \<Rightarrow>
               after_cb T (rs__udp_recv_cb (spec_env cb e) conn nread buf)
           | Cancel i rc \<Rightarrow>
               (case chan conn i of
                  None \<Rightarrow> None
                | Some os \<Rightarrow>
                    if active os
                    then Some (spec_cancel_outstanding cb (rs__process_request_queue e)
                                 conn i rc, T - {i})
                    else None)
           | Dispatch \<Rightarrow> Some (rs__process_request_queue e conn, T)))"

fun run ::
  "(rs_conn_t \<Rightarrow> nat \<Rightarrow> outcome \<Rightarrow> rs_conn_t) \<Rightarrow> env \<Rightarrow> event list
   \<Rightarrow> rs_conn_t \<times> nat set \<Rightarrow> (rs_conn_t \<times> nat set) option" where
  "run cb e [] s = Some s"
| "run cb e (ev # evs) s =
     (case exec cb e ev s of None \<Rightarrow> None | Some s' \<Rightarrow> run cb e evs s')"

text \<open>
  A channel that awaits the completion of its send after a deferred cancellation, and
  the condition on timers that the callbacks maintain: a timer is armed only on an
  active channel with no send in flight, and a send is in flight only on an active
  channel.
\<close>

fun is_completion_of :: "nat \<Rightarrow> event \<Rightarrow> bool" where
  "is_completion_of i (Send_completes j status) = (j = i)"
| "is_completion_of i ev = False"

definition awaits_completion :: "rs_conn_t \<Rightarrow> nat \<Rightarrow> bool" where
  "awaits_completion conn i =
     (case chan conn i of
        None \<Rightarrow> False
      | Some os \<Rightarrow> active os \<and> cancelled os \<and> send_req_active os)"

definition timers_sane :: "rs_conn_t \<times> nat set \<Rightarrow> bool" where
  "timers_sane s \<longleftrightarrow>
     (\<forall>j \<in> snd s. \<exists>os. chan (fst s) j = Some os \<and> active os \<and> \<not> send_req_active os)
   \<and> (\<forall>j os. chan (fst s) j = Some os \<and> send_req_active os \<longrightarrow> active os)"

text \<open>
  For evaluation: callbacks that do nothing, and a pool of two channels, the first
  awaiting the completion of its send after a cancellation, the second waiting for
  its response (before and after one retransmission).
\<close>

definition quiet_cb :: "rs_conn_t \<Rightarrow> nat \<Rightarrow> outcome \<Rightarrow> rs_conn_t" where
  "quiet_cb conn i out = conn"

definition pool2 :: rs_conn_t where
  "pool2 = conn_of [(busy_chan 7 1)\<lparr>send_req_active := True, cancelled := True\<rparr>,
                    busy_chan 9 1]"

definition pool2_later :: rs_conn_t where
  "pool2_later = conn_of [(busy_chan 7 1)\<lparr>send_req_active := True, cancelled := True\<rparr>,
                          busy_chan 9 2]"

section \<open>Properties\<close>

subsection \<open>Channel updates and the scan\<close>

lemma chan_SomeD:
  "chan conn i = Some os \<Longrightarrow> i < length (outstanding conn) \<and> outstanding conn ! i = os"
  by (auto simp: chan_def split: if_splits)

lemma chan_set_chan_same:
  "i < length (outstanding conn) \<Longrightarrow> chan (set_chan conn i os) i = Some os"
  by (simp add: chan_def set_chan_def)

lemma chan_set_chan_other:
  "j \<noteq> i \<Longrightarrow> chan (set_chan conn i os) j = chan conn j"
  by (simp add: chan_def set_chan_def)

lemma set_chan_twice: "set_chan (set_chan conn i a) i b = set_chan conn i b"
  by (simp add: set_chan_def)

lemma set_chan_fields:
  "timeout (set_chan conn i os) = timeout conn"
  "conn_n_tries (set_chan conn i os) = conn_n_tries conn"
  "n_outstanding (set_chan conn i os) = n_outstanding conn"
  "free (set_chan conn i os) = free conn"
  by (simp_all add: set_chan_def)

declare recv_scan.simps [simp del]

text \<open>With \<^verbatim>\<open>n_outstanding\<close> channels in the pool the scan reads no channel outside it.\<close>

lemma recv_scan_total:
  "unat (n_outstanding conn) \<le> length (outstanding conn) \<Longrightarrow>
   recv_scan env conn b seq i \<noteq> None"
proof (induction env conn b seq i rule: recv_scan.induct)
  case (1 env conn b seq i)
  show ?case
  proof (cases "i < unat (n_outstanding conn)")
    case False
    then show ?thesis by (simp add: recv_scan.simps [of env conn b seq i])
  next
    case True
    with "1.prems" have "i < length (outstanding conn)" by simp
    then obtain os where os: "chan conn i = Some os" by (simp add: chan_def)
    show ?thesis
    proof (cases "active os \<and> seq_num os = seq")
      case hit: True
      with True os show ?thesis by (simp add: recv_scan.simps [of env conn b seq i])
    next
      case miss: False
      from "1.IH" [OF True os miss "1.prems"] True os miss
      show ?thesis by (simp add: recv_scan.simps [of env conn b seq i])
    qed
  qed
qed

text \<open>
  What the scan from \<open>i\<close> returns: nothing, when no channel from \<open>i\<close> on matches, or
  the one call for the first channel that does.
\<close>

lemma recv_scan_result:
  "recv_scan env conn b seq i = Some (calls, st) \<Longrightarrow>
   (calls = [] \<and> st = conn
      \<and> (\<forall>j. i \<le> j \<and> j < unat (n_outstanding conn) \<longrightarrow> \<not> matches conn seq j))
   \<or> (\<exists>j. i \<le> j \<and> j < unat (n_outstanding conn) \<and> matches conn seq j
         \<and> (\<forall>k. i \<le> k \<and> k < j \<longrightarrow> \<not> matches conn seq k)
         \<and> calls = [Rs__process_response j b]
         \<and> st = rs__process_response env conn j b)"
proof (induction env conn b seq i rule: recv_scan.induct)
  case (1 env conn b seq i)
  show ?case
  proof (cases "i < unat (n_outstanding conn)")
    case False
    with "1.prems" have "calls = [] \<and> st = conn"
      by (simp add: recv_scan.simps [of env conn b seq i])
    with False show ?thesis by auto
  next
    case True
    show ?thesis
    proof (cases "chan conn i")
      case None
      with True "1.prems" show ?thesis
        by (simp add: recv_scan.simps [of env conn b seq i])
    next
      case (Some os)
      show ?thesis
      proof (cases "active os \<and> seq_num os = seq")
        case hit: True
        with True Some "1.prems"
        have "calls = [Rs__process_response i b] \<and> st = rs__process_response env conn i b"
          by (auto simp add: recv_scan.simps [of env conn b seq i])
        moreover from hit Some have "matches conn seq i" by (simp add: matches_def)
        ultimately show ?thesis using True by auto
      next
        case miss: False
        from miss Some have nm: "\<not> matches conn seq i" by (simp add: matches_def)
        from True Some miss "1.prems"
        have "recv_scan env conn b seq (i + 1) = Some (calls, st)"
          by (auto simp add: recv_scan.simps [of env conn b seq i] split: if_splits)
        from "1.IH" [OF True Some miss this]
        show ?thesis
        proof
          assume a: "calls = [] \<and> st = conn
            \<and> (\<forall>j. i + 1 \<le> j \<and> j < unat (n_outstanding conn) \<longrightarrow> \<not> matches conn seq j)"
          have "\<forall>j. i \<le> j \<and> j < unat (n_outstanding conn) \<longrightarrow> \<not> matches conn seq j"
          proof (intro allI impI)
            fix j assume j: "i \<le> j \<and> j < unat (n_outstanding conn)"
            show "\<not> matches conn seq j"
            proof (cases "j = i")
              case True with nm show ?thesis by simp
            next
              case False with j a show ?thesis by simp
            qed
          qed
          with a show ?thesis by simp
        next
          assume "\<exists>j. i + 1 \<le> j \<and> j < unat (n_outstanding conn) \<and> matches conn seq j
            \<and> (\<forall>k. i + 1 \<le> k \<and> k < j \<longrightarrow> \<not> matches conn seq k)
            \<and> calls = [Rs__process_response j b]
            \<and> st = rs__process_response env conn j b"
          then obtain j where j: "i + 1 \<le> j" "j < unat (n_outstanding conn)"
            "matches conn seq j" "\<forall>k. i + 1 \<le> k \<and> k < j \<longrightarrow> \<not> matches conn seq k"
            "calls = [Rs__process_response j b]" "st = rs__process_response env conn j b"
            by blast
          have "\<forall>k. i \<le> k \<and> k < j \<longrightarrow> \<not> matches conn seq k"
          proof (intro allI impI)
            fix k assume k: "i \<le> k \<and> k < j"
            show "\<not> matches conn seq k"
            proof (cases "k = i")
              case True with nm show ?thesis by simp
            next
              case False with k j(4) show ?thesis by simp
            qed
          qed
          with j show ?thesis by auto
        qed
      qed
    qed
  qed
qed

text \<open>The shapes of the call lists.\<close>

lemma attempt_transmission_calls:
  "rs__attempt_transmission env conn i = Some (calls, st) \<Longrightarrow>
   calls = [] \<or> calls = [Uv_udp_send i] \<or> calls = [Rs__cancel_outstanding i (- 1)]
   \<or> calls = [Uv_udp_send i, Rs__cancel_outstanding i (- 1)]"
  by (auto simp add: rs__attempt_transmission_def Let_def split: option.splits if_splits)

lemma free_base_cases: "free_base buf = [] \<or> free_base buf = [Free_base]"
  by (simp add: free_base_def)

lemma udp_recv_cb_calls:
  assumes "rs__udp_recv_cb env conn nread buf = Some (calls, st)"
  shows "calls = free_base buf
       \<or> calls = Rs__unpack_scp_packet_seq_num buf # free_base buf
       \<or> (\<exists>j. calls = Rs__unpack_scp_packet_seq_num buf
                  # Rs__process_response j (buf\<lparr>len := nat nread\<rparr>) # free_base buf)"
proof (cases "nread \<ge> int (RS__SIZEOF_SCP_PACKET env 0 0)")
  case False
  with assms show ?thesis by (simp add: rs__udp_recv_cb_def)
next
  case True
  with assms obtain cs where
    sc: "recv_scan env conn (buf\<lparr>len := nat nread\<rparr>) (rs__unpack_scp_packet_seq_num env buf) 0
           = Some (cs, st)"
    and calls: "calls = Rs__unpack_scp_packet_seq_num buf # cs @ free_base buf"
    by (auto simp add: rs__udp_recv_cb_def split: option.splits)
  from recv_scan_result [OF sc] calls show ?thesis by auto
qed

lemma udp_recv_cb_frees:
  assumes "rs__udp_recv_cb env conn nread buf = Some (calls, st)"
  shows "Free_base \<in> set calls \<longleftrightarrow> base buf \<noteq> None"
  using udp_recv_cb_calls [OF assms] by (auto simp add: free_base_def split: if_splits)

text \<open>The example pool and datagrams.\<close>

lemma pool3_scan_7:
  "recv_scan (run_env 0 14 False) pool3 b 7 0 = Some ([Rs__process_response 1 b], pool3)"
  by (simp add: recv_scan.simps [of _ _ _ _ 0] recv_scan.simps [of _ _ _ _ 1]
      recv_scan.simps [of _ _ _ _ "Suc 0"] run_env_def conn_of_def chan_def
      idle_chan_def busy_chan_def pool3_def)

lemma pool3_ok: "unat (n_outstanding pool3) \<le> length (outstanding pool3)"
  by (simp add: pool3_def conn_of_def)

lemma pool3_size: "unat (n_outstanding pool3) = 3" "length (outstanding pool3) = 3"
  by (simp_all add: pool3_def conn_of_def)

lemma pool3_matches_7: "matches pool3 7 (Suc 0)" "\<not> matches pool3 7 0"
  by (simp_all add: matches_def chan_def pool3_def conn_of_def busy_chan_def idle_chan_def)

lemma pool3_matches_9: "\<not> matches pool3 9 j"
  by (simp add: matches_def chan_def pool3_def conn_of_def busy_chan_def idle_chan_def
      nth_Cons' split: option.splits)

lemma unpack_dgram:
  "rs__unpack_scp_packet_seq_num (run_env rc m oom) (dgram 7) = 7"
  "rs__unpack_scp_packet_seq_num (run_env rc m oom) (dgram 9) = 9"
  by (simp_all add: run_env_def dgram_def)

subsection \<open>Channels awaiting a send completion\<close>

text \<open>What a function that touches idle channels only preserves.\<close>

lemma frame_busy:
  "touches_idle_only f \<Longrightarrow> chan conn j = Some os \<Longrightarrow> active os \<Longrightarrow> chan (f conn) j = Some os"
  unfolding touches_idle_only_def by blast

lemma frame_stray:
  "touches_idle_only f \<Longrightarrow> chan (f conn) j = Some os \<Longrightarrow> send_req_active os \<Longrightarrow>
   \<not> active os \<Longrightarrow> chan conn j = Some os"
  unfolding touches_idle_only_def by blast

lemma frame_sane:
  assumes f: "touches_idle_only f" and s: "timers_sane (conn, T)"
  shows "timers_sane (f conn, T)"
  unfolding timers_sane_def
proof (intro conjI ballI allI impI)
  fix j assume "j \<in> snd (f conn, T)"
  with s obtain os where "chan conn j = Some os" "active os" "\<not> send_req_active os"
    unfolding timers_sane_def by auto
  with frame_busy [OF f] show "\<exists>os. chan (fst (f conn, T)) j = Some os \<and> active os
      \<and> \<not> send_req_active os"
    by auto
next
  fix j os
  assume a: "chan (fst (f conn, T)) j = Some os \<and> send_req_active os"
  show "active os"
  proof (rule ccontr)
    assume "\<not> active os"
    with a frame_stray [OF f, of conn j os] have "chan conn j = Some os" by simp
    with a s have "active os" unfolding timers_sane_def by auto
    with \<open>\<not> active os\<close> show False ..
  qed
qed

lemma frame_awaits:
  "touches_idle_only f \<Longrightarrow> awaits_completion conn i \<Longrightarrow> awaits_completion (f conn) i"
  by (auto simp add: awaits_completion_def split: option.splits dest: frame_busy)

lemma sane_set:
  assumes s: "timers_sane (conn, T)" and k: "chan conn k = Some os"
    and a: "send_req_active os' \<longrightarrow> active os'"
  shows "timers_sane (set_chan conn k os', T - {k})"
  unfolding timers_sane_def
proof (intro conjI ballI allI impI)
  fix j assume "j \<in> snd (set_chan conn k os', T - {k})"
  then have "j \<in> T" "j \<noteq> k" by auto
  with s show "\<exists>os. chan (fst (set_chan conn k os', T - {k})) j = Some os \<and> active os
      \<and> \<not> send_req_active os"
    unfolding timers_sane_def by (auto simp add: chan_set_chan_other)
next
  fix j os2
  assume c: "chan (fst (set_chan conn k os', T - {k})) j = Some os2 \<and> send_req_active os2"
  show "active os2"
  proof (cases "j = k")
    case True
    with c k a show ?thesis by (simp add: chan_set_chan_same chan_SomeD)
  next
    case False
    with c s show ?thesis unfolding timers_sane_def by (auto simp add: chan_set_chan_other)
  qed
qed

lemma sane_less: "timers_sane (conn, T) \<Longrightarrow> timers_sane (conn, T - X)"
  unfolding timers_sane_def by auto

lemma sane_arm:
  "timers_sane (conn, T) \<Longrightarrow> chan conn k = Some os \<Longrightarrow> active os \<Longrightarrow>
   \<not> send_req_active os \<Longrightarrow> timers_sane (conn, insert k T)"
  unfolding timers_sane_def by auto

lemma awaits_set_other:
  "k \<noteq> i \<Longrightarrow> awaits_completion conn i \<Longrightarrow> awaits_completion (set_chan conn k os') i"
  by (simp add: awaits_completion_def chan_set_chan_other)

lemma wb_dispatch: "well_behaved cb e \<Longrightarrow> touches_idle_only (rs__process_request_queue e)"
  by (simp add: well_behaved_def)

lemma wb_cb: "well_behaved cb e \<Longrightarrow> touches_idle_only (\<lambda>conn. cb conn i out)"
  by (simp add: well_behaved_def)

lemma spec_cancel_sane:
  assumes wb: "well_behaved cb e" and s: "timers_sane (conn, T)" and k: "chan conn k = Some os"
  shows "timers_sane
           (spec_cancel_outstanding cb (rs__process_request_queue e) conn k rc, T - {k})"
proof (cases "send_req_active os")
  case True
  with s k have "active os" unfolding timers_sane_def by auto
  then have "send_req_active (os\<lparr>cancelled := True\<rparr>) \<longrightarrow> active (os\<lparr>cancelled := True\<rparr>)"
    by simp
  from sane_set [OF s k this] True k show ?thesis
    by (simp add: spec_cancel_outstanding_def)
next
  case False
  then have "send_req_active (os\<lparr>active := False\<rparr>) \<longrightarrow> active (os\<lparr>active := False\<rparr>)"
    by simp
  from sane_set [OF s k this]
  have "timers_sane (set_chan conn k (os\<lparr>active := False\<rparr>), T - {k})" .
  from frame_sane [OF wb_cb [OF wb] this]
  have "timers_sane (cb (set_chan conn k (os\<lparr>active := False\<rparr>)) k (Failed rc), T - {k})" .
  from frame_sane [OF wb_dispatch [OF wb] this] False k show ?thesis
    by (simp add: spec_cancel_outstanding_def)
qed

lemma spec_cancel_awaits:
  assumes wb: "well_behaved cb e" and a: "awaits_completion conn i"
  shows "awaits_completion
           (spec_cancel_outstanding cb (rs__process_request_queue e) conn k rc) i"
proof (cases "chan conn k")
  case None
  with a show ?thesis by (simp add: spec_cancel_outstanding_def)
next
  case (Some os)
  show ?thesis
  proof (cases "send_req_active os")
    case True
    show ?thesis
    proof (cases "k = i")
      case ki: True
      with a Some True show ?thesis
        by (simp add: spec_cancel_outstanding_def awaits_completion_def
            chan_set_chan_same chan_SomeD)
    next
      case False
      from awaits_set_other [OF False a] Some True show ?thesis
        by (simp add: spec_cancel_outstanding_def)
    qed
  next
    case False
    with a Some have ki: "k \<noteq> i" by (auto simp add: awaits_completion_def)
    from awaits_set_other [OF ki a]
    have "awaits_completion (set_chan conn k (os\<lparr>active := False\<rparr>)) i" .
    from frame_awaits [OF wb_cb [OF wb] this]
    have "awaits_completion (cb (set_chan conn k (os\<lparr>active := False\<rparr>)) k (Failed rc)) i" .
    from frame_awaits [OF wb_dispatch [OF wb] this] Some False show ?thesis
      by (simp add: spec_cancel_outstanding_def)
  qed
qed

lemma spec_response_sane:
  assumes wb: "well_behaved cb e" and s: "timers_sane (conn, T)" and k: "chan conn k = Some os"
  shows "timers_sane
           (spec_process_response cb (rs__process_request_queue e) conn k b, T - {k})"
proof (cases "send_req_active os")
  case True
  with sane_less [OF s] k show ?thesis
    by (simp add: spec_process_response_def)
next
  case False
  then have "send_req_active (os\<lparr>active := False\<rparr>) \<longrightarrow> active (os\<lparr>active := False\<rparr>)"
    by simp
  from sane_set [OF s k this]
  have "timers_sane (set_chan conn k (os\<lparr>active := False\<rparr>), T - {k})" .
  from frame_sane [OF wb_cb [OF wb] this]
  have "timers_sane (cb (set_chan conn k (os\<lparr>active := False\<rparr>)) k (Answered b), T - {k})" .
  from frame_sane [OF wb_dispatch [OF wb] this] False k show ?thesis
    by (simp add: spec_process_response_def)
qed

lemma spec_response_awaits:
  assumes wb: "well_behaved cb e" and a: "awaits_completion conn i"
  shows "awaits_completion
           (spec_process_response cb (rs__process_request_queue e) conn k b) i"
proof (cases "chan conn k")
  case None
  with a show ?thesis by (simp add: spec_process_response_def)
next
  case (Some os)
  show ?thesis
  proof (cases "send_req_active os")
    case True
    with a Some show ?thesis by (simp add: spec_process_response_def)
  next
    case False
    with a Some have ki: "k \<noteq> i" by (auto simp add: awaits_completion_def)
    from awaits_set_other [OF ki a]
    have "awaits_completion (set_chan conn k (os\<lparr>active := False\<rparr>)) i" .
    from frame_awaits [OF wb_cb [OF wb] this]
    have "awaits_completion (cb (set_chan conn k (os\<lparr>active := False\<rparr>)) k (Answered b)) i" .
    from frame_awaits [OF wb_dispatch [OF wb] this] Some False show ?thesis
      by (simp add: spec_process_response_def)
  qed
qed

lemma spec_env_fields:
  "rs__cancel_outstanding (spec_env cb e)
     = spec_cancel_outstanding cb (rs__process_request_queue e)"
  "rs__process_response (spec_env cb e)
     = spec_process_response cb (rs__process_request_queue e)"
  "rs__process_request_queue (spec_env cb e) = rs__process_request_queue e"
  by (simp_all add: spec_env_def)

text \<open>The timer callback on a channel whose timer is armed.\<close>

lemma timer_step:
  assumes wb: "well_behaved cb e" and s: "timers_sane (conn, T)" and k: "k \<in> T"
    and r: "after_cb (T - {k}) (rs__timer_cb (spec_env cb e) conn k) = Some s'"
  shows "timers_sane s' \<and> (awaits_completion conn i \<longrightarrow> awaits_completion (fst s') i)"
proof -
  from s k obtain os where os: "chan conn k = Some os" "active os" "\<not> send_req_active os"
    unfolding timers_sane_def by auto
  let ?E = "spec_env cb e"
  let ?o1 = "os\<lparr>n_tries := n_tries os + 1\<rparr>"
  let ?o2 = "os\<lparr>n_tries := n_tries os + 1, send_req_active := True\<rparr>"
  let ?o3 = "os\<lparr>n_tries := n_tries os + 1, send_req_active := False\<rparr>"
  have ki: "awaits_completion conn i \<Longrightarrow> k \<noteq> i"
    using os by (auto simp add: awaits_completion_def)
  from os(1) have len: "k < length (outstanding conn)" by (simp add: chan_SomeD)
  have c1: "chan (set_chan conn k ?o1) k = Some ?o1"
    and c3: "chan (set_chan conn k ?o3) k = Some ?o3"
    using len by (simp_all add: chan_set_chan_same)
  have s1: "timers_sane (set_chan conn k ?o1, T - {k})"
    using sane_set [OF s os(1), of ?o1] os by simp
  have s2: "timers_sane (set_chan conn k ?o2, T - {k})"
    using sane_set [OF s os(1), of ?o2] os by simp
  have s3: "timers_sane (set_chan conn k ?o3, T - {k})"
    using sane_set [OF s os(1), of ?o3] os by simp
  from r os consider
      (sent) "s' = (set_chan conn k ?o2, T - {k})"
    | (over) "s' = (spec_cancel_outstanding cb (rs__process_request_queue e)
                      (set_chan conn k ?o1) k (- 1), T - {k} - {k})"
    | (fail) "s' = (spec_cancel_outstanding cb (rs__process_request_queue e)
                      (set_chan conn k ?o3) k (- 1), T - {k} - {k})"
    by (auto simp add: after_cb_def rs__timer_cb_def rs__attempt_transmission_def Let_def
        set_chan_twice set_chan_fields spec_env_fields split: if_splits)
  then show ?thesis
  proof cases
    case sent
    with s2 ki show ?thesis by (auto intro: awaits_set_other)
  next
    case over
    from spec_cancel_sane [OF wb s1 c1] over have "timers_sane s'" by simp
    moreover have "awaits_completion (fst s') i" if a: "awaits_completion conn i"
      using spec_cancel_awaits [OF wb awaits_set_other [OF ki [OF a] a]] over by simp
    ultimately show ?thesis by blast
  next
    case fail
    from spec_cancel_sane [OF wb s3 c3] fail have "timers_sane s'" by simp
    moreover have "awaits_completion (fst s') i" if a: "awaits_completion conn i"
      using spec_cancel_awaits [OF wb awaits_set_other [OF ki [OF a] a]] fail by simp
    ultimately show ?thesis by blast
  qed
qed

text \<open>The send completion on a channel with a send in flight, on a non-freeing connection.\<close>

lemma completion_step:
  assumes wb: "well_behaved cb e" and s: "timers_sane (conn, T)"
    and k: "chan conn k = Some os" and fl: "send_req_active os" and nf: "\<not> free conn"
    and r: "after_cb T (rs__udp_send_cb (spec_env cb e) conn k status) = Some s'"
  shows "timers_sane s'
       \<and> (k \<noteq> i \<longrightarrow> awaits_completion conn i \<longrightarrow> awaits_completion (fst s') i)"
proof -
  from s k fl have act: "active os" unfolding timers_sane_def by auto
  from s k fl have kT: "k \<notin> T" unfolding timers_sane_def by auto
  let ?o1 = "os\<lparr>send_req_active := False\<rparr>"
  let ?o3 = "os\<lparr>send_req_active := False, active := False, cancelled := False\<rparr>"
  from k have len: "k < length (outstanding conn)" by (simp add: chan_SomeD)
  have c1: "chan (set_chan conn k ?o1) k = Some ?o1"
    using len by (simp add: chan_set_chan_same)
  from kT have TT: "T - {k} = T" by auto
  have s1: "timers_sane (set_chan conn k ?o1, T)"
    using sane_set [OF s k, of ?o1] TT by simp
  have s3: "timers_sane (set_chan conn k ?o3, T)"
    using sane_set [OF s k, of ?o3] TT by simp
  from r k nf consider
      (idle) "s' = (rs__process_request_queue e (set_chan conn k ?o3), T)"
    | (err) "s' = (spec_cancel_outstanding cb (rs__process_request_queue e)
                     (set_chan conn k ?o1) k (- 1), T - {k})"
    | (arm) "s' = (set_chan conn k ?o1, insert k T)"
    by (auto simp add: after_cb_def rs__udp_send_cb_def Let_def set_chan_twice set_chan_fields
        spec_env_fields split: if_splits)
  then show ?thesis
  proof cases
    case idle
    from frame_sane [OF wb_dispatch [OF wb] s3] idle have "timers_sane s'" by simp
    moreover have "awaits_completion (fst s') i" if "k \<noteq> i" "awaits_completion conn i"
      using frame_awaits [OF wb_dispatch [OF wb] awaits_set_other [OF that]] idle by simp
    ultimately show ?thesis by blast
  next
    case err
    from spec_cancel_sane [OF wb s1 c1] err have "timers_sane s'" by simp
    moreover have "awaits_completion (fst s') i" if "k \<noteq> i" "awaits_completion conn i"
      using spec_cancel_awaits [OF wb awaits_set_other [OF that]] err by simp
    ultimately show ?thesis by blast
  next
    case arm
    from sane_arm [OF s1 c1] act arm have "timers_sane s'" by simp
    moreover have "awaits_completion (fst s') i" if "k \<noteq> i" "awaits_completion conn i"
      using awaits_set_other [OF that] arm by simp
    ultimately show ?thesis by blast
  qed
qed

lemma timers_after_free: "timers_after (free_base buf) T = T"
  by (simp add: free_base_def)

lemma timers_after_append:
  "timers_after (cs @ ds) T = timers_after ds (timers_after cs T)"
  by (induction cs T rule: timers_after.induct) simp_all

text \<open>A datagram.\<close>

lemma datagram_step:
  assumes wb: "well_behaved cb e" and s: "timers_sane (conn, T)"
    and r: "after_cb T (rs__udp_recv_cb (spec_env cb e) conn nread buf) = Some s'"
  shows "timers_sane s' \<and> (awaits_completion conn i \<longrightarrow> awaits_completion (fst s') i)"
proof -
  from r obtain calls st where
    rc: "rs__udp_recv_cb (spec_env cb e) conn nread buf = Some (calls, st)"
    and s': "s' = (st, timers_after calls T)"
    by (auto simp add: after_cb_def split: option.splits)
  show ?thesis
  proof (cases "nread \<ge> int (RS__SIZEOF_SCP_PACKET (spec_env cb e) 0 0)")
    case False
    with rc s' have "s' = (conn, T)"
      by (auto simp add: rs__udp_recv_cb_def timers_after_free)
    with s show ?thesis by simp
  next
    case True
    let ?b = "buf\<lparr>len := nat nread\<rparr>"
    let ?seq = "rs__unpack_scp_packet_seq_num (spec_env cb e) buf"
    from True rc obtain cs where
      sc: "recv_scan (spec_env cb e) conn ?b ?seq 0 = Some (cs, st)"
      and calls: "calls = Rs__unpack_scp_packet_seq_num buf # cs @ free_base buf"
      by (auto simp add: rs__udp_recv_cb_def split: option.splits)
    from recv_scan_result [OF sc]
    show ?thesis
    proof
      assume "cs = [] \<and> st = conn
        \<and> (\<forall>j. 0 \<le> j \<and> j < unat (n_outstanding conn) \<longrightarrow> \<not> matches conn ?seq j)"
      with calls s' have "s' = (conn, T)" by (simp add: timers_after_free)
      with s show ?thesis by simp
    next
      assume "\<exists>j. 0 \<le> j \<and> j < unat (n_outstanding conn) \<and> matches conn ?seq j
         \<and> (\<forall>k. 0 \<le> k \<and> k < j \<longrightarrow> \<not> matches conn ?seq k)
         \<and> cs = [Rs__process_response j ?b]
         \<and> st = rs__process_response (spec_env cb e) conn j ?b"
      then obtain j where j: "matches conn ?seq j" "cs = [Rs__process_response j ?b]"
        "st = rs__process_response (spec_env cb e) conn j ?b"
        by blast
      from j(1) obtain os where os: "chan conn j = Some os"
        by (auto simp add: matches_def split: option.splits)
      from calls j(2) s' j(3)
      have e: "s' = (spec_process_response cb (rs__process_request_queue e) conn j ?b, T - {j})"
        by (simp add: timers_after_append timers_after_free spec_env_fields)
      from spec_response_sane [OF wb s os] e have "timers_sane s'" by simp
      moreover have "awaits_completion (fst s') i" if "awaits_completion conn i"
        using spec_response_awaits [OF wb that] e by simp
      ultimately show ?thesis by blast
    qed
  qed
qed

lemma exec_keeps:
  assumes wb: "well_behaved cb e" and s: "timers_sane s"
    and x: "exec cb e ev s = Some s'"
  shows "timers_sane s'
       \<and> (\<not> is_completion_of i ev \<longrightarrow> awaits_completion (fst s) i
            \<longrightarrow> awaits_completion (fst s') i)"
proof -
  obtain conn T where st: "s = (conn, T)" by (cases s)
  from x st have nf: "\<not> free conn" by (auto simp add: exec_def split: if_splits)
  show ?thesis
  proof (cases ev)
    case (Timer_fires k)
    with x st nf have "k \<in> T"
      and "after_cb (T - {k}) (rs__timer_cb (spec_env cb e) conn k) = Some s'"
      by (auto simp add: exec_def split: if_splits)
    from timer_step [OF wb s [unfolded st] this, of i] st show ?thesis by simp
  next
    case (Send_completes k status)
    with x st nf obtain os where "chan conn k = Some os" "send_req_active os"
      and "after_cb T (rs__udp_send_cb (spec_env cb e) conn k status) = Some s'"
      by (auto simp add: exec_def split: if_splits option.splits)
    from completion_step [OF wb s [unfolded st] this(1,2) nf this(3), of i] st Send_completes
    show ?thesis by auto
  next
    case (Datagram nread buf)
    with x st nf have "after_cb T (rs__udp_recv_cb (spec_env cb e) conn nread buf) = Some s'"
      by (auto simp add: exec_def)
    from datagram_step [OF wb s [unfolded st] this, of i] st show ?thesis by simp
  next
    case (Cancel k rc)
    with x st nf obtain os where os: "chan conn k = Some os"
      and e: "s' = (spec_cancel_outstanding cb (rs__process_request_queue e) conn k rc, T - {k})"
      by (auto simp add: exec_def split: if_splits option.splits)
    from spec_cancel_sane [OF wb s [unfolded st] os] e have "timers_sane s'" by simp
    moreover have "awaits_completion (fst s') i" if "awaits_completion (fst s) i"
      using spec_cancel_awaits [OF wb, of conn i k rc] that st e by simp
    ultimately show ?thesis by blast
  next
    case Dispatch
    with x st nf have e: "s' = (rs__process_request_queue e conn, T)"
      by (auto simp add: exec_def)
    from frame_sane [OF wb_dispatch [OF wb] s [unfolded st]] e have "timers_sane s'" by simp
    moreover have "awaits_completion (fst s') i" if "awaits_completion (fst s) i"
      using frame_awaits [OF wb_dispatch [OF wb], of conn i] that st e by simp
    ultimately show ?thesis by blast
  qed
qed

lemma run_keeps:
  assumes wb: "well_behaved cb e"
  shows "timers_sane s \<Longrightarrow> awaits_completion (fst s) i \<Longrightarrow>
         \<not> list_ex (is_completion_of i) evs \<Longrightarrow> run cb e evs s = Some s' \<Longrightarrow>
         timers_sane s' \<and> awaits_completion (fst s') i"
proof (induction evs arbitrary: s)
  case Nil
  then show ?case by simp
next
  case (Cons ev evs)
  from Cons.prems(4) obtain s1 where x: "exec cb e ev s = Some s1"
    and r: "run cb e evs s1 = Some s'"
    by (auto split: option.splits)
  from Cons.prems(3) have n: "\<not> is_completion_of i ev" "\<not> list_ex (is_completion_of i) evs"
    by simp_all
  from exec_keeps [OF wb Cons.prems(1) x, of i] n(1) Cons.prems(2)
  have "timers_sane s1" "awaits_completion (fst s1) i" by simp_all
  from Cons.IH [OF this n(2) r] show ?case .
qed

text \<open>
  The condition on timers holds when no send is in flight and no timer is armed, as
  in a pool of idle channels, and every run keeps it.
\<close>

lemma idle_sane:
  assumes "\<forall>os \<in> set (outstanding conn). \<not> send_req_active os"
  shows "timers_sane (conn, {})"
  using assms by (auto simp add: timers_sane_def chan_def split: if_splits)

lemma run_sane:
  assumes wb: "well_behaved cb e"
  shows "timers_sane s \<Longrightarrow> run cb e evs s = Some s' \<Longrightarrow> timers_sane s'"
proof (induction evs arbitrary: s)
  case Nil
  then show ?case by simp
next
  case (Cons ev evs)
  from Cons.prems(2) obtain s1 where x: "exec cb e ev s = Some s1"
    and r: "run cb e evs s1 = Some s'"
    by (auto split: option.splits)
  from exec_keeps [OF wb Cons.prems(1) x, of 0] have "timers_sane s1" by simp
  from Cons.IH [OF this r] show ?case .
qed

text \<open>The example run.\<close>

lemma quiet_well_behaved: "well_behaved quiet_cb (run_env rc m oom)"
  by (simp add: well_behaved_def touches_idle_only_def quiet_cb_def run_env_def)

lemma pool2_sane: "timers_sane (pool2, {1})"
  by (simp add: timers_sane_def pool2_def conn_of_def chan_def busy_chan_def nth_Cons'
      split: if_splits)

lemma pool2_datagram:
  "exec quiet_cb (run_env 0 14 False) (Datagram 14 (dgram 7)) (pool2, {1}) = Some (pool2, {1})"
  by (simp add: exec_def after_cb_def rs__udp_recv_cb_def
      recv_scan.simps [of _ _ _ _ 0] spec_env_def run_env_def spec_process_response_def
      pool2_def conn_of_def chan_def busy_chan_def dgram_def free_base_def)

lemma pool2_cancel:
  "exec quiet_cb (run_env 0 14 False) (Cancel 0 (- 1)) (pool2, {1}) = Some (pool2, {1})"
  by (simp add: exec_def spec_cancel_outstanding_def pool2_def conn_of_def chan_def
      set_chan_def busy_chan_def)

lemma pool2_timer:
  "exec quiet_cb (run_env 0 14 False) (Timer_fires 1) (pool2, {1})
     = Some (conn_of [(busy_chan 7 1)\<lparr>send_req_active := True, cancelled := True\<rparr>,
                      (busy_chan 9 2)\<lparr>send_req_active := True\<rparr>], {})"
  by (simp add: exec_def after_cb_def rs__timer_cb_def rs__attempt_transmission_def Let_def
      spec_env_def run_env_def pool2_def conn_of_def chan_def set_chan_def busy_chan_def)

lemma pool2_completion:
  "exec quiet_cb (run_env 0 14 False) (Send_completes 1 0)
     (conn_of [(busy_chan 7 1)\<lparr>send_req_active := True, cancelled := True\<rparr>,
               (busy_chan 9 2)\<lparr>send_req_active := True\<rparr>], {})
     = Some (pool2_later, {1})"
  by (simp add: exec_def after_cb_def rs__udp_send_cb_def Let_def
      spec_env_def run_env_def pool2_later_def conn_of_def chan_def set_chan_def busy_chan_def)

lemma pool2_dispatch:
  "exec quiet_cb (run_env 0 14 False) Dispatch (pool2_later, {1}) = Some (pool2_later, {1})"
  by (simp add: exec_def run_env_def pool2_later_def conn_of_def)

lemma pool2_run:
  "run quiet_cb (run_env 0 14 False)
     [Datagram 14 (dgram 7), Cancel 0 (- 1), Timer_fires 1, Send_completes 1 0, Dispatch]
     (pool2, {1})
     = Some (pool2_later, {1})"
  by (simp only: run.simps pool2_datagram pool2_cancel pool2_timer pool2_completion
      pool2_dispatch option.case)

subsection \<open>Inactive channels\<close>

text \<open>
  C8. For a channel whose \<open>active\<close> flag is false, \<open>rs__attempt_transmission\<close>, also
  when entered through \<open>rs__timer_cb\<close>, is a no-op: it makes no call at all (no send,
  no callback) and returns the state it was given, so \<open>n_tries\<close> and every other
  field of every channel and of the connection are as before.
\<close>

theorem attempt_transmission_inactive_noop:
  assumes "chan conn i = Some os" and "\<not> active os"
  shows "rs__attempt_transmission env conn i = Some ([], conn)
       \<and> rs__timer_cb env conn i = Some ([], conn)"
  using assms by (simp add: rs__attempt_transmission_def rs__timer_cb_def)

theorem attempt_transmission_inactive_noop_witness:
  "chan (conn_of [idle_chan]) 0 = Some idle_chan \<and> \<not> active idle_chan
   \<and> rs__attempt_transmission (run_env 0 14 False) (conn_of [idle_chan]) 0
       = Some ([], conn_of [idle_chan])
   \<and> rs__timer_cb (run_env 0 14 False) (conn_of [idle_chan]) 0
       = Some ([], conn_of [idle_chan])"
proof -
  have c: "chan (conn_of [idle_chan]) 0 = Some idle_chan"
    by (simp add: chan_def conn_of_def)
  have a: "\<not> active idle_chan"
    by (simp add: idle_chan_def)
  from attempt_transmission_inactive_noop [OF c a, of "run_env 0 14 False"] c a
  show ?thesis by simp
qed

subsection \<open>Counting attempts\<close>

text \<open>
  C1. On an active channel \<open>rs__attempt_transmission\<close> first increments \<open>n_tries\<close>.
  When the incremented count exceeds the connection's maximum (\<open>conn_n_tries\<close>), it
  submits no UDP send: its only call is \<open>rs__cancel_outstanding\<close> on the channel with
  the error result \<open>- 1\<close>, in the state that holds the incremented count. Otherwise its
  first call is the UDP send, submitted in a state where the count is already
  incremented, and a send that is accepted leaves that state.
\<close>

theorem attempt_transmission_tries_limit:
  assumes "chan conn i = Some os" and "active os"
  shows "(conn_n_tries conn < n_tries os + 1 \<longrightarrow>
            rs__attempt_transmission env conn i
              = Some ([Rs__cancel_outstanding i (- 1)],
                      rs__cancel_outstanding env
                        (set_chan conn i (os\<lparr>n_tries := n_tries os + 1\<rparr>)) i (- 1)))
       \<and> (n_tries os + 1 \<le> conn_n_tries conn \<longrightarrow>
            (\<exists>calls st.
                rs__attempt_transmission env conn i = Some (Uv_udp_send i # calls, st))
          \<and> (uv_udp_send env
                 (set_chan conn i
                    (os\<lparr>n_tries := n_tries os + 1, send_req_active := True\<rparr>)) i = 0
               \<longrightarrow> rs__attempt_transmission env conn i
                     = Some ([Uv_udp_send i],
                         set_chan conn i
                           (os\<lparr>n_tries := n_tries os + 1, send_req_active := True\<rparr>))))"
  using assms
  by (auto simp add: rs__attempt_transmission_def Let_def set_chan_twice set_chan_fields)

theorem attempt_transmission_tries_limit_witness:
  "chan (conn_of [busy_chan 7 3]) 0 = Some (busy_chan 7 3) \<and> active (busy_chan 7 3)
   \<and> conn_n_tries (conn_of [busy_chan 7 3]) < n_tries (busy_chan 7 3) + 1
   \<and> rs__attempt_transmission (run_env 0 14 False) (conn_of [busy_chan 7 3]) 0
       = Some ([Rs__cancel_outstanding 0 (- 1)], conn_of [busy_chan 7 4])
   \<and> chan (conn_of [busy_chan 7 0]) 0 = Some (busy_chan 7 0) \<and> active (busy_chan 7 0)
   \<and> n_tries (busy_chan 7 0) + 1 \<le> conn_n_tries (conn_of [busy_chan 7 0])
   \<and> rs__attempt_transmission (run_env 0 14 False) (conn_of [busy_chan 7 0]) 0
       = Some ([Uv_udp_send 0], conn_of [(busy_chan 7 1)\<lparr>send_req_active := True\<rparr>])"
proof -
  have c3: "chan (conn_of [busy_chan 7 3]) 0 = Some (busy_chan 7 3)"
    and c0: "chan (conn_of [busy_chan 7 0]) 0 = Some (busy_chan 7 0)"
    by (simp_all add: chan_def conn_of_def)
  have a3: "active (busy_chan 7 3)" and a0: "active (busy_chan 7 0)"
    by (simp_all add: busy_chan_def)
  from attempt_transmission_tries_limit [OF c3 a3, of "run_env 0 14 False"]
    attempt_transmission_tries_limit [OF c0 a0, of "run_env 0 14 False"] c3 c0 a3 a0
  show ?thesis
    by (simp add: conn_of_def busy_chan_def run_env_def set_chan_def)
qed

text \<open>
  C7. When the submission of the send fails at once (\<open>uv_udp_send\<close> returns a nonzero
  value), \<open>rs__attempt_transmission\<close> clears \<open>send_req_active\<close>, the send-in-flight
  flag, and then completes the channel through \<open>rs__cancel_outstanding\<close> with the
  error result \<open>- 1\<close>: the state that \<open>rs__cancel_outstanding\<close> is called in has the
  flag cleared.
\<close>

theorem attempt_transmission_sync_failure:
  assumes "chan conn i = Some os" and "active os"
    and "n_tries os + 1 \<le> conn_n_tries conn"
    and "uv_udp_send env
           (set_chan conn i (os\<lparr>n_tries := n_tries os + 1, send_req_active := True\<rparr>)) i
         \<noteq> 0"
  shows "rs__attempt_transmission env conn i
           = Some ([Uv_udp_send i, Rs__cancel_outstanding i (- 1)],
                   rs__cancel_outstanding env
                     (set_chan conn i
                        (os\<lparr>n_tries := n_tries os + 1, send_req_active := False\<rparr>))
                     i (- 1))
       \<and> chan (set_chan conn i
                 (os\<lparr>n_tries := n_tries os + 1, send_req_active := False\<rparr>)) i
           = Some (os\<lparr>n_tries := n_tries os + 1, send_req_active := False\<rparr>)"
  using assms
  by (simp add: rs__attempt_transmission_def Let_def set_chan_twice set_chan_fields
      chan_set_chan_same chan_SomeD)

theorem attempt_transmission_sync_failure_witness:
  "chan (conn_of [busy_chan 7 0]) 0 = Some (busy_chan 7 0) \<and> active (busy_chan 7 0)
   \<and> n_tries (busy_chan 7 0) + 1 \<le> conn_n_tries (conn_of [busy_chan 7 0])
   \<and> uv_udp_send (run_env (- 1) 14 False)
        (set_chan (conn_of [busy_chan 7 0]) 0
           ((busy_chan 7 0)\<lparr>n_tries := n_tries (busy_chan 7 0) + 1,
                             send_req_active := True\<rparr>)) 0 \<noteq> 0
   \<and> rs__attempt_transmission (run_env (- 1) 14 False) (conn_of [busy_chan 7 0]) 0
       = Some ([Uv_udp_send 0, Rs__cancel_outstanding 0 (- 1)], conn_of [busy_chan 7 1])"
proof -
  have c: "chan (conn_of [busy_chan 7 0]) 0 = Some (busy_chan 7 0)"
    by (simp add: chan_def conn_of_def)
  have a: "active (busy_chan 7 0)"
    by (simp add: busy_chan_def)
  have n: "n_tries (busy_chan 7 0) + 1 \<le> conn_n_tries (conn_of [busy_chan 7 0])"
    by (simp add: conn_of_def busy_chan_def)
  have u: "uv_udp_send (run_env (- 1) 14 False)
        (set_chan (conn_of [busy_chan 7 0]) 0
           ((busy_chan 7 0)\<lparr>n_tries := n_tries (busy_chan 7 0) + 1,
                             send_req_active := True\<rparr>)) 0 \<noteq> 0"
    by (simp add: run_env_def)
  from attempt_transmission_sync_failure [OF c a n u] c a n u
  show ?thesis
    by (simp add: conn_of_def busy_chan_def run_env_def set_chan_def)
qed

subsection \<open>The send completion\<close>

text \<open>
  C2. \<open>rs__udp_send_cb\<close> first clears \<open>send_req_active\<close> and then makes exactly one
  call, chosen in this order: \<open>rs_free\<close> when the connection is freeing; else the
  dispatch loop, on the channel made idle, when the channel is active and cancelled;
  else \<open>rs__cancel_outstanding\<close> with the error result \<open>- 1\<close> when the status is not
  0; else \<open>uv_timer_start\<close> with the connection's timeout and repeat 0 (one shot).
  Every collaborator is called in a state where \<open>send_req_active\<close> is already false.
\<close>

theorem udp_send_cb_priority:
  assumes "chan conn i = Some os"
  shows "rs__udp_send_cb env conn i status =
           (if free conn then
              Some ([Rs_free], rs_free env (set_chan conn i (os\<lparr>send_req_active := False\<rparr>)))
            else if active os \<and> cancelled os then
              Some ([Rs__process_request_queue],
                    rs__process_request_queue env
                      (set_chan conn i
                         (os\<lparr>send_req_active := False, active := False, cancelled := False\<rparr>)))
            else if status \<noteq> 0 then
              Some ([Rs__cancel_outstanding i (- 1)],
                    rs__cancel_outstanding env
                      (set_chan conn i (os\<lparr>send_req_active := False\<rparr>)) i (- 1))
            else
              Some ([Uv_timer_start i (timeout conn) 0],
                    set_chan conn i (os\<lparr>send_req_active := False\<rparr>)))
       \<and> (\<exists>c st. rs__udp_send_cb env conn i status = Some ([c], st))"
  using assms
  by (simp add: rs__udp_send_cb_def Let_def set_chan_twice set_chan_fields)

theorem udp_send_cb_priority_witness:
  "chan (conn_of [(busy_chan 7 1)\<lparr>send_req_active := True\<rparr>]) 0
     = Some ((busy_chan 7 1)\<lparr>send_req_active := True\<rparr>)
   \<and> rs__udp_send_cb (run_env 0 14 False)
        (conn_of [(busy_chan 7 1)\<lparr>send_req_active := True\<rparr>]) 0 0
       = Some ([Uv_timer_start 0 500 0], conn_of [busy_chan 7 1])
   \<and> rs__udp_send_cb (run_env 0 14 False)
        (conn_of [(busy_chan 7 1)\<lparr>send_req_active := True\<rparr>]) 0 (- 4)
       = Some ([Rs__cancel_outstanding 0 (- 1)], conn_of [busy_chan 7 1])"
proof -
  have c: "chan (conn_of [(busy_chan 7 1)\<lparr>send_req_active := True\<rparr>]) 0
     = Some ((busy_chan 7 1)\<lparr>send_req_active := True\<rparr>)"
    by (simp add: chan_def conn_of_def)
  from udp_send_cb_priority [OF c, of "run_env 0 14 False" 0]
    udp_send_cb_priority [OF c, of "run_env 0 14 False" "- 4"] c
  show ?thesis
    by (simp add: conn_of_def busy_chan_def run_env_def set_chan_def)
qed

text \<open>
  C4. When the send completion arrives for a channel that is active and cancelled, on
  a connection that is not freeing, \<open>rs__udp_send_cb\<close> clears \<open>active\<close> and
  \<open>cancelled\<close> (and \<open>send_req_active\<close> before them), leaves every other channel as
  it is, and then runs the dispatch loop \<open>rs__process_request_queue\<close> on that state:
  the channel is idle when the loop looks for a free one. And such a channel does not
  become idle before. From a state where its send is in flight and the timers are as
  the callbacks keep them (\<open>timers_sane\<close>), let the event loop deliver timers, send
  completions and datagrams to the callbacks of rs__transport.c, and the library cancel
  channels and run its dispatch loop, in any order and number (\<open>run\<close>), with
  \<open>rs__cancel_outstanding\<close> and \<open>rs__process_response\<close> as the spec describes them
  and a dispatch loop and user callbacks that touch idle channels only. As long as the
  completion of the channel's own send is not among the events, the channel is still
  active, cancelled and in flight; and when that completion then arrives, on the
  connection still not freeing, it makes the channel idle and runs the dispatch loop.
\<close>

theorem udp_send_cb_deferred_cancel:
  assumes "chan conn i = Some os" and "\<not> free conn" and "active os" and "cancelled os"
  shows "rs__udp_send_cb env conn i status
           = Some ([Rs__process_request_queue],
                   rs__process_request_queue env
                     (set_chan conn i
                        (os\<lparr>send_req_active := False, active := False, cancelled := False\<rparr>)))
       \<and> chan (set_chan conn i
                 (os\<lparr>send_req_active := False, active := False, cancelled := False\<rparr>)) i
           = Some (os\<lparr>send_req_active := False, active := False, cancelled := False\<rparr>)
       \<and> (\<forall>j. j \<noteq> i \<longrightarrow>
             chan (set_chan conn i
                     (os\<lparr>send_req_active := False, active := False, cancelled := False\<rparr>)) j
               = chan conn j)
       \<and> (send_req_active os \<and> well_behaved cb e \<and> timers_sane (conn, T)
            \<and> \<not> list_ex (is_completion_of i) evs \<and> run cb e evs (conn, T) = Some s' \<longrightarrow>
          awaits_completion (fst s') i \<and> timers_sane s'
          \<and> (\<not> free (fst s') \<longrightarrow>
               (\<exists>os'. chan (fst s') i = Some os'
                  \<and> exec cb e (Send_completes i status) s'
                      = Some (rs__process_request_queue e
                                (set_chan (fst s') i
                                   (os'\<lparr>send_req_active := False, active := False,
                                         cancelled := False\<rparr>)),
                              snd s'))))"
proof (intro conjI allI impI)
  show "rs__udp_send_cb env conn i status
           = Some ([Rs__process_request_queue],
                   rs__process_request_queue env
                     (set_chan conn i
                        (os\<lparr>send_req_active := False, active := False, cancelled := False\<rparr>)))"
    using assms by (simp add: rs__udp_send_cb_def Let_def set_chan_twice set_chan_fields)
next
  show "chan (set_chan conn i
                 (os\<lparr>send_req_active := False, active := False, cancelled := False\<rparr>)) i
           = Some (os\<lparr>send_req_active := False, active := False, cancelled := False\<rparr>)"
    using assms by (simp add: chan_set_chan_same chan_SomeD)
next
  fix j assume "j \<noteq> i"
  then show "chan (set_chan conn i
                     (os\<lparr>send_req_active := False, active := False, cancelled := False\<rparr>)) j
               = chan conn j"
    by (simp add: chan_set_chan_other)
next
  assume h: "send_req_active os \<and> well_behaved cb e \<and> timers_sane (conn, T)
            \<and> \<not> list_ex (is_completion_of i) evs \<and> run cb e evs (conn, T) = Some s'"
  from assms h have a: "awaits_completion (fst (conn, T)) i"
    by (simp add: awaits_completion_def)
  from h have wb: "well_behaved cb e" and s: "timers_sane (conn, T)"
    and n: "\<not> list_ex (is_completion_of i) evs" and r: "run cb e evs (conn, T) = Some s'"
    by simp_all
  from run_keeps [OF wb s a n r]
  show k: "awaits_completion (fst s') i" and "timers_sane s'" by simp_all
  assume nf: "\<not> free (fst s')"
  from k obtain os' where os': "chan (fst s') i = Some os'" "active os'" "cancelled os'"
    "send_req_active os'"
    by (auto simp add: awaits_completion_def split: option.splits)
  obtain c' T' where s': "s' = (c', T')" by (cases s')
  from os' nf s'
  have "exec cb e (Send_completes i status) s'
          = Some (rs__process_request_queue e
                    (set_chan (fst s') i
                       (os'\<lparr>send_req_active := False, active := False, cancelled := False\<rparr>)),
                  snd s')"
    by (simp add: exec_def after_cb_def rs__udp_send_cb_def Let_def set_chan_twice
        set_chan_fields spec_env_fields)
  with os'(1)
  show "\<exists>os'. chan (fst s') i = Some os'
          \<and> exec cb e (Send_completes i status) s'
              = Some (rs__process_request_queue e
                        (set_chan (fst s') i
                           (os'\<lparr>send_req_active := False, active := False,
                                 cancelled := False\<rparr>)),
                      snd s')"
    by blast
qed

theorem udp_send_cb_deferred_cancel_witness:
  "chan pool2 0 = Some ((busy_chan 7 1)\<lparr>send_req_active := True, cancelled := True\<rparr>)
   \<and> \<not> free pool2
   \<and> active ((busy_chan 7 1)\<lparr>send_req_active := True, cancelled := True\<rparr>)
   \<and> cancelled ((busy_chan 7 1)\<lparr>send_req_active := True, cancelled := True\<rparr>)
   \<and> send_req_active ((busy_chan 7 1)\<lparr>send_req_active := True, cancelled := True\<rparr>)
   \<and> well_behaved quiet_cb (run_env 0 14 False)
   \<and> timers_sane (pool2, {1})
   \<and> \<not> list_ex (is_completion_of 0)
         [Datagram 14 (dgram 7), Cancel 0 (- 1), Timer_fires 1, Send_completes 1 0, Dispatch]
   \<and> run quiet_cb (run_env 0 14 False)
        [Datagram 14 (dgram 7), Cancel 0 (- 1), Timer_fires 1, Send_completes 1 0, Dispatch]
        (pool2, {1})
       = Some (pool2_later, {1})
   \<and> awaits_completion pool2_later 0
   \<and> \<not> free pool2_later
   \<and> rs__udp_send_cb (run_env 0 14 False) pool2 0 0
       = Some ([Rs__process_request_queue],
               conn_of [idle_chan\<lparr>seq_num := 7, n_tries := 1\<rparr>, busy_chan 9 1])
   \<and> exec quiet_cb (run_env 0 14 False) (Send_completes 0 0) (pool2_later, {1})
       = Some (conn_of [idle_chan\<lparr>seq_num := 7, n_tries := 1\<rparr>, busy_chan 9 2], {1})"
proof -
  let ?os = "(busy_chan 7 1)\<lparr>send_req_active := True, cancelled := True\<rparr>"
  let ?evs = "[Datagram 14 (dgram 7), Cancel 0 (- 1), Timer_fires 1, Send_completes 1 0,
               Dispatch]"
  have c: "chan pool2 0 = Some ?os"
    by (simp add: chan_def pool2_def conn_of_def)
  have f: "\<not> free pool2" and f': "\<not> free pool2_later"
    by (simp_all add: pool2_def pool2_later_def conn_of_def)
  have a: "active ?os" and k: "cancelled ?os" and fl: "send_req_active ?os"
    by (simp_all add: busy_chan_def)
  have n: "\<not> list_ex (is_completion_of 0) ?evs" by simp
  have c': "chan pool2_later 0 = Some ?os"
    by (simp add: chan_def pool2_later_def conn_of_def)
  from udp_send_cb_deferred_cancel [OF c f a k, of "run_env 0 14 False" 0 quiet_cb
      "run_env 0 14 False" "{1}" ?evs "(pool2_later, {1})"]
    fl quiet_well_behaved pool2_sane n pool2_run f'
  have first: "rs__udp_send_cb (run_env 0 14 False) pool2 0 0
       = Some ([Rs__process_request_queue],
               rs__process_request_queue (run_env 0 14 False)
                 (set_chan pool2 0
                    (?os\<lparr>send_req_active := False, active := False, cancelled := False\<rparr>)))"
    and aw: "awaits_completion pool2_later 0"
    and ex: "\<exists>os'. chan pool2_later 0 = Some os'
          \<and> exec quiet_cb (run_env 0 14 False) (Send_completes 0 0) (pool2_later, {1})
              = Some (rs__process_request_queue (run_env 0 14 False)
                        (set_chan pool2_later 0
                           (os'\<lparr>send_req_active := False, active := False,
                                 cancelled := False\<rparr>)),
                      {1})"
    by simp_all
  from first have first': "rs__udp_send_cb (run_env 0 14 False) pool2 0 0
       = Some ([Rs__process_request_queue],
               conn_of [idle_chan\<lparr>seq_num := 7, n_tries := 1\<rparr>, busy_chan 9 1])"
    by (simp add: run_env_def set_chan_def pool2_def conn_of_def busy_chan_def idle_chan_def)
  from ex c' have "exec quiet_cb (run_env 0 14 False) (Send_completes 0 0) (pool2_later, {1})
       = Some (conn_of [idle_chan\<lparr>seq_num := 7, n_tries := 1\<rparr>, busy_chan 9 2], {1})"
    by (auto simp add: run_env_def set_chan_def pool2_later_def conn_of_def busy_chan_def
        idle_chan_def)
  with c f a k fl quiet_well_behaved pool2_sane n pool2_run aw f' first'
  show ?thesis by simp
qed

text \<open>
  C5. The retransmit timer is armed in one place only. \<open>rs__udp_send_cb\<close> calls
  \<open>uv_timer_start\<close> exactly when the connection is not freeing, the channel is not
  awaiting a deferred cancellation (active and cancelled) and the status is 0; it then
  is the only call, for the same channel, with the connection's timeout, and in a state
  where \<open>send_req_active\<close> is false. Neither \<open>rs__attempt_transmission\<close>, which puts
  a send in flight, nor \<open>rs__udp_recv_cb\<close> starts a timer; and the timer callback
  \<open>rs__timer_cb\<close> is \<open>rs__attempt_transmission\<close> on the same channel.
\<close>

theorem timer_started_only_after_good_send:
  assumes "chan conn i = Some os"
  shows "(\<forall>calls st. rs__udp_send_cb env conn i status = Some (calls, st) \<longrightarrow>
            (list_ex is_timer_start calls
               \<longleftrightarrow> \<not> free conn \<and> \<not> (active os \<and> cancelled os) \<and> status = 0))
       \<and> (\<not> free conn \<and> \<not> (active os \<and> cancelled os) \<and> status = 0 \<longrightarrow>
            rs__udp_send_cb env conn i status
              = Some ([Uv_timer_start i (timeout conn) 0],
                      set_chan conn i (os\<lparr>send_req_active := False\<rparr>)))
       \<and> (\<forall>calls st. rs__attempt_transmission env conn i = Some (calls, st) \<longrightarrow>
            \<not> list_ex is_timer_start calls)
       \<and> (\<forall>nread buf calls st. rs__udp_recv_cb env conn nread buf = Some (calls, st) \<longrightarrow>
            \<not> list_ex is_timer_start calls)
       \<and> rs__timer_cb env conn i = rs__attempt_transmission env conn i"
proof (intro conjI allI impI)
  fix calls st
  assume "rs__udp_send_cb env conn i status = Some (calls, st)"
  with assms show "list_ex is_timer_start calls
               \<longleftrightarrow> \<not> free conn \<and> \<not> (active os \<and> cancelled os) \<and> status = 0"
    by (auto simp add: rs__udp_send_cb_def Let_def set_chan_fields split: if_splits)
next
  assume "\<not> free conn \<and> \<not> (active os \<and> cancelled os) \<and> status = 0"
  with assms show "rs__udp_send_cb env conn i status
              = Some ([Uv_timer_start i (timeout conn) 0],
                      set_chan conn i (os\<lparr>send_req_active := False\<rparr>))"
    by (simp add: rs__udp_send_cb_def Let_def set_chan_fields)
next
  fix calls st
  assume "rs__attempt_transmission env conn i = Some (calls, st)"
  from attempt_transmission_calls [OF this]
  show "\<not> list_ex is_timer_start calls" by auto
next
  fix nread buf calls st
  assume "rs__udp_recv_cb env conn nread buf = Some (calls, st)"
  from udp_recv_cb_calls [OF this] free_base_cases [of buf]
  show "\<not> list_ex is_timer_start calls" by auto
next
  show "rs__timer_cb env conn i = rs__attempt_transmission env conn i"
    by (simp add: rs__timer_cb_def)
qed

theorem timer_started_only_after_good_send_witness:
  "chan (conn_of [(busy_chan 7 1)\<lparr>send_req_active := True\<rparr>]) 0
     = Some ((busy_chan 7 1)\<lparr>send_req_active := True\<rparr>)
   \<and> \<not> free (conn_of [(busy_chan 7 1)\<lparr>send_req_active := True\<rparr>])
   \<and> \<not> (active ((busy_chan 7 1)\<lparr>send_req_active := True\<rparr>)
        \<and> cancelled ((busy_chan 7 1)\<lparr>send_req_active := True\<rparr>))
   \<and> rs__udp_send_cb (run_env 0 14 False)
        (conn_of [(busy_chan 7 1)\<lparr>send_req_active := True\<rparr>]) 0 0
       = Some ([Uv_timer_start 0 500 0], conn_of [busy_chan 7 1])
   \<and> list_ex is_timer_start [Uv_timer_start 0 500 0]
   \<and> rs__timer_cb (run_env 0 14 False) (conn_of [busy_chan 7 1]) 0
       = Some ([Uv_udp_send 0], conn_of [(busy_chan 7 2)\<lparr>send_req_active := True\<rparr>])
   \<and> \<not> list_ex is_timer_start [Uv_udp_send 0]"
proof -
  let ?os = "(busy_chan 7 1)\<lparr>send_req_active := True\<rparr>"
  have c: "chan (conn_of [?os]) 0 = Some ?os"
    by (simp add: chan_def conn_of_def)
  have h: "\<not> free (conn_of [?os]) \<and> \<not> (active ?os \<and> cancelled ?os)"
    by (simp add: conn_of_def busy_chan_def)
  have t: "rs__timer_cb (run_env 0 14 False) (conn_of [busy_chan 7 1]) 0
       = Some ([Uv_udp_send 0], conn_of [(busy_chan 7 2)\<lparr>send_req_active := True\<rparr>])"
    by (simp add: rs__timer_cb_def rs__attempt_transmission_def chan_def conn_of_def
        busy_chan_def run_env_def set_chan_def Let_def)
  from timer_started_only_after_good_send [OF c, of "run_env 0 14 False" 0] c h t
  show ?thesis
    by (simp add: conn_of_def busy_chan_def run_env_def set_chan_def)
qed

subsection \<open>Result codes\<close>

text \<open>
  C6, as stated, fails: the claim wants the result code given to
  \<open>rs__cancel_outstanding\<close> on retry exhaustion to differ from the one given on a
  failed send. A channel that has used its 3 attempts and a channel whose first send is
  refused are both cancelled with the code \<open>- 1\<close>.
\<close>

theorem cancel_code_distinct_counterexample:
  "rs__attempt_transmission (run_env 0 14 False) (conn_of [busy_chan 7 3]) 0
     = Some ([Rs__cancel_outstanding 0 (- 1)], conn_of [busy_chan 7 4])
   \<and> rs__attempt_transmission (run_env (- 1) 14 False) (conn_of [busy_chan 7 0]) 0
     = Some ([Uv_udp_send 0, Rs__cancel_outstanding 0 (- 1)], conn_of [busy_chan 7 1])
   \<and> \<not> (cancel_codes [Rs__cancel_outstanding 0 (- 1)]
          \<noteq> cancel_codes [Uv_udp_send 0, Rs__cancel_outstanding 0 (- 1)])"
  by (simp add: rs__attempt_transmission_def chan_def conn_of_def busy_chan_def run_env_def
      set_chan_def Let_def)

text \<open>
  C6, amended. Whenever rs__transport.c cancels a channel it passes the result code
  \<open>- 1\<close>: when the incremented \<open>n_tries\<close> exceeds the limit, when \<open>uv_udp_send\<close>
  fails at once, and when the send completion reports an error. The code has no error
  kinds; a timeout and a transport failure reach \<open>rs__cancel_outstanding\<close> with the
  same code.
\<close>

theorem cancel_code_always_minus_one:
  assumes "chan conn i = Some os"
  shows "(active os \<and> conn_n_tries conn < n_tries os + 1 \<longrightarrow>
            (\<exists>calls st. rs__attempt_transmission env conn i = Some (calls, st)
               \<and> cancel_codes calls = [- 1]))
       \<and> (active os \<and> n_tries os + 1 \<le> conn_n_tries conn
            \<and> uv_udp_send env
                 (set_chan conn i
                    (os\<lparr>n_tries := n_tries os + 1, send_req_active := True\<rparr>)) i \<noteq> 0 \<longrightarrow>
            (\<exists>calls st. rs__attempt_transmission env conn i = Some (calls, st)
               \<and> cancel_codes calls = [- 1]))
       \<and> (\<not> free conn \<and> \<not> (active os \<and> cancelled os) \<and> status \<noteq> 0 \<longrightarrow>
            (\<exists>calls st. rs__udp_send_cb env conn i status = Some (calls, st)
               \<and> cancel_codes calls = [- 1]))"
  using assms
  by (auto simp add: rs__attempt_transmission_def rs__udp_send_cb_def Let_def
      set_chan_twice set_chan_fields)

theorem cancel_code_always_minus_one_witness:
  "chan (conn_of [busy_chan 7 3]) 0 = Some (busy_chan 7 3)
   \<and> active (busy_chan 7 3)
   \<and> conn_n_tries (conn_of [busy_chan 7 3]) < n_tries (busy_chan 7 3) + 1
   \<and> \<not> free (conn_of [busy_chan 7 3])
   \<and> \<not> (active (busy_chan 7 3) \<and> cancelled (busy_chan 7 3)) \<and> (- 4 :: int) \<noteq> 0
   \<and> (\<exists>calls st. rs__attempt_transmission (run_env 0 14 False) (conn_of [busy_chan 7 3]) 0
          = Some (calls, st) \<and> cancel_codes calls = [- 1])
   \<and> (\<exists>calls st. rs__udp_send_cb (run_env 0 14 False) (conn_of [busy_chan 7 3]) 0 (- 4)
          = Some (calls, st) \<and> cancel_codes calls = [- 1])
   \<and> chan (conn_of [busy_chan 7 0]) 0 = Some (busy_chan 7 0)
   \<and> active (busy_chan 7 0)
   \<and> n_tries (busy_chan 7 0) + 1 \<le> conn_n_tries (conn_of [busy_chan 7 0])
   \<and> uv_udp_send (run_env (- 1) 14 False)
        (set_chan (conn_of [busy_chan 7 0]) 0
           ((busy_chan 7 0)\<lparr>n_tries := n_tries (busy_chan 7 0) + 1,
                             send_req_active := True\<rparr>)) 0 \<noteq> 0
   \<and> (\<exists>calls st. rs__attempt_transmission (run_env (- 1) 14 False)
                     (conn_of [busy_chan 7 0]) 0
          = Some (calls, st) \<and> cancel_codes calls = [- 1])"
proof -
  have c: "chan (conn_of [busy_chan 7 3]) 0 = Some (busy_chan 7 3)"
    and c0: "chan (conn_of [busy_chan 7 0]) 0 = Some (busy_chan 7 0)"
    by (simp_all add: chan_def conn_of_def)
  have h: "active (busy_chan 7 3)
     \<and> conn_n_tries (conn_of [busy_chan 7 3]) < n_tries (busy_chan 7 3) + 1
     \<and> \<not> free (conn_of [busy_chan 7 3])
     \<and> \<not> (active (busy_chan 7 3) \<and> cancelled (busy_chan 7 3)) \<and> (- 4 :: int) \<noteq> 0"
    by (simp add: conn_of_def busy_chan_def)
  have h0: "active (busy_chan 7 0)
     \<and> n_tries (busy_chan 7 0) + 1 \<le> conn_n_tries (conn_of [busy_chan 7 0])
     \<and> uv_udp_send (run_env (- 1) 14 False)
        (set_chan (conn_of [busy_chan 7 0]) 0
           ((busy_chan 7 0)\<lparr>n_tries := n_tries (busy_chan 7 0) + 1,
                             send_req_active := True\<rparr>)) 0 \<noteq> 0"
    by (simp add: conn_of_def busy_chan_def run_env_def)
  from cancel_code_always_minus_one [OF c, of "run_env 0 14 False" "- 4"]
    cancel_code_always_minus_one [OF c0, of "run_env (- 1) 14 False" 0] c c0 h h0
  show ?thesis by blast
qed

subsection \<open>Receiving\<close>

text \<open>
  C3. A datagram shorter than the smallest SCP packet, \<open>RS__SIZEOF_SCP_PACKET 0 0\<close>,
  is dropped: \<open>rs__udp_recv_cb\<close> only releases the receive buffer, calls no
  collaborator and leaves the state as it is. That holds for every negative length, and
  for length 0 whenever the smallest packet is not empty. For a longer datagram, in a
  pool that holds its \<open>n_outstanding\<close> channels, the sequence number is unpacked; if
  some channel is active with that number, the response is handed to such a channel
  (with the buffer's length set to the datagram's), and if none is, the datagram is
  dropped in the same way.
\<close>

theorem udp_recv_cb_drop_or_deliver:
  "(nread < int (RS__SIZEOF_SCP_PACKET env 0 0) \<longrightarrow>
      rs__udp_recv_cb env conn nread buf = Some (free_base buf, conn))
   \<and> (nread < 0 \<longrightarrow> rs__udp_recv_cb env conn nread buf = Some (free_base buf, conn))
   \<and> (int (RS__SIZEOF_SCP_PACKET env 0 0) \<le> nread
        \<and> unat (n_outstanding conn) \<le> length (outstanding conn) \<longrightarrow>
      ((\<exists>j < unat (n_outstanding conn).
           matches conn (rs__unpack_scp_packet_seq_num env buf) j) \<longrightarrow>
       (\<exists>j < unat (n_outstanding conn).
           matches conn (rs__unpack_scp_packet_seq_num env buf) j
           \<and> rs__udp_recv_cb env conn nread buf
               = Some ([Rs__unpack_scp_packet_seq_num buf,
                        Rs__process_response j (buf\<lparr>len := nat nread\<rparr>)] @ free_base buf,
                       rs__process_response env conn j (buf\<lparr>len := nat nread\<rparr>))))
      \<and> ((\<forall>j < unat (n_outstanding conn).
            \<not> matches conn (rs__unpack_scp_packet_seq_num env buf) j) \<longrightarrow>
         rs__udp_recv_cb env conn nread buf
           = Some (Rs__unpack_scp_packet_seq_num buf # free_base buf, conn)))"
proof (intro conjI impI)
  assume "nread < int (RS__SIZEOF_SCP_PACKET env 0 0)"
  then show "rs__udp_recv_cb env conn nread buf = Some (free_base buf, conn)"
    by (simp add: rs__udp_recv_cb_def)
next
  assume "nread < 0"
  then show "rs__udp_recv_cb env conn nread buf = Some (free_base buf, conn)"
    by (simp add: rs__udp_recv_cb_def)
next
  let ?seq = "rs__unpack_scp_packet_seq_num env buf"
  let ?b = "buf\<lparr>len := nat nread\<rparr>"
  assume h: "int (RS__SIZEOF_SCP_PACKET env 0 0) \<le> nread
        \<and> unat (n_outstanding conn) \<le> length (outstanding conn)"
  then obtain cs st where sc: "recv_scan env conn ?b ?seq 0 = Some (cs, st)"
    using recv_scan_total [of conn env ?b ?seq 0] by (cases "recv_scan env conn ?b ?seq 0") auto
  with h have r: "rs__udp_recv_cb env conn nread buf
      = Some (Rs__unpack_scp_packet_seq_num buf # cs @ free_base buf, st)"
    by (simp add: rs__udp_recv_cb_def)
  {
    assume "\<exists>j < unat (n_outstanding conn). matches conn ?seq j"
    with recv_scan_result [OF sc] r
    show "\<exists>j < unat (n_outstanding conn). matches conn ?seq j
           \<and> rs__udp_recv_cb env conn nread buf
               = Some ([Rs__unpack_scp_packet_seq_num buf, Rs__process_response j ?b]
                         @ free_base buf,
                       rs__process_response env conn j ?b)"
      by auto
  next
    assume "\<forall>j < unat (n_outstanding conn). \<not> matches conn ?seq j"
    with recv_scan_result [OF sc] r
    show "rs__udp_recv_cb env conn nread buf
           = Some (Rs__unpack_scp_packet_seq_num buf # free_base buf, conn)"
      by auto
  }
qed

theorem udp_recv_cb_drop_or_deliver_witness:
  "(0 :: int) < int (RS__SIZEOF_SCP_PACKET (run_env 0 14 False) 0 0)
   \<and> rs__udp_recv_cb (run_env 0 14 False) pool3 0 (dgram 7) = Some ([Free_base], pool3)
   \<and> rs__udp_recv_cb (run_env 0 14 False) pool3 (- 1) (dgram 7) = Some ([Free_base], pool3)
   \<and> int (RS__SIZEOF_SCP_PACKET (run_env 0 14 False) 0 0) \<le> 14
   \<and> unat (n_outstanding pool3) \<le> length (outstanding pool3)
   \<and> matches pool3 (rs__unpack_scp_packet_seq_num (run_env 0 14 False) (dgram 7)) 1
   \<and> rs__udp_recv_cb (run_env 0 14 False) pool3 14 (dgram 7)
       = Some ([Rs__unpack_scp_packet_seq_num (dgram 7),
                Rs__process_response 1 ((dgram 7)\<lparr>len := 14\<rparr>), Free_base], pool3)
   \<and> unat (n_outstanding pool3) = 3
   \<and> \<not> matches pool3 (rs__unpack_scp_packet_seq_num (run_env 0 14 False) (dgram 9)) 0
   \<and> \<not> matches pool3 (rs__unpack_scp_packet_seq_num (run_env 0 14 False) (dgram 9)) 1
   \<and> \<not> matches pool3 (rs__unpack_scp_packet_seq_num (run_env 0 14 False) (dgram 9)) 2
   \<and> rs__udp_recv_cb (run_env 0 14 False) pool3 14 (dgram 9)
       = Some ([Rs__unpack_scp_packet_seq_num (dgram 9), Free_base], pool3)"
proof -
  have m: "int (RS__SIZEOF_SCP_PACKET (run_env 0 14 False) 0 0) = 14"
    by (simp add: run_env_def)
  have fb: "free_base (dgram 7) = [Free_base]" "free_base (dgram 9) = [Free_base]"
    by (simp_all add: free_base_def dgram_def)
  from udp_recv_cb_drop_or_deliver [of 0 "run_env 0 14 False" pool3 "dgram 7"]
    udp_recv_cb_drop_or_deliver [of "- 1" "run_env 0 14 False" pool3 "dgram 7"]
    udp_recv_cb_drop_or_deliver [of 14 "run_env 0 14 False" pool3 "dgram 9"]
  have short: "rs__udp_recv_cb (run_env 0 14 False) pool3 0 (dgram 7) = Some ([Free_base], pool3)"
    "rs__udp_recv_cb (run_env 0 14 False) pool3 (- 1) (dgram 7) = Some ([Free_base], pool3)"
    and none: "rs__udp_recv_cb (run_env 0 14 False) pool3 14 (dgram 9)
       = Some ([Rs__unpack_scp_packet_seq_num (dgram 9), Free_base], pool3)"
    by (simp_all add: m fb pool3_ok unpack_dgram pool3_matches_9)
  have hit: "rs__udp_recv_cb (run_env 0 14 False) pool3 14 (dgram 7)
       = Some ([Rs__unpack_scp_packet_seq_num (dgram 7),
                Rs__process_response 1 ((dgram 7)\<lparr>len := 14\<rparr>), Free_base], pool3)"
    using pool3_scan_7 [of "(dgram 7)\<lparr>len := 14\<rparr>"]
    by (simp add: rs__udp_recv_cb_def m fb unpack_dgram)
  from short none hit show ?thesis
    by (simp add: m pool3_ok pool3_size unpack_dgram pool3_matches_7 pool3_matches_9)
qed

text \<open>
  C9. For a datagram of sufficient length \<open>rs__udp_recv_cb\<close> calls
  \<open>rs__process_response\<close> at most once; when channels match, also several, the one
  call is for the first of them, the channel of lowest index that is active with the
  datagram's sequence number.
\<close>

theorem udp_recv_cb_first_match_only:
  assumes "int (RS__SIZEOF_SCP_PACKET env 0 0) \<le> nread"
    and "unat (n_outstanding conn) \<le> length (outstanding conn)"
  shows "\<exists>calls st. rs__udp_recv_cb env conn nread buf = Some (calls, st)
       \<and> length (filter is_response calls) \<le> 1
       \<and> (\<forall>j. j < unat (n_outstanding conn)
              \<and> matches conn (rs__unpack_scp_packet_seq_num env buf) j
              \<and> (\<forall>k < j. \<not> matches conn (rs__unpack_scp_packet_seq_num env buf) k) \<longrightarrow>
            filter is_response calls = [Rs__process_response j (buf\<lparr>len := nat nread\<rparr>)]
            \<and> st = rs__process_response env conn j (buf\<lparr>len := nat nread\<rparr>))"
proof -
  let ?seq = "rs__unpack_scp_packet_seq_num env buf"
  let ?b = "buf\<lparr>len := nat nread\<rparr>"
  obtain cs st where sc: "recv_scan env conn ?b ?seq 0 = Some (cs, st)"
    using recv_scan_total [OF assms(2), of env ?b ?seq 0]
    by (cases "recv_scan env conn ?b ?seq 0") auto
  with assms(1) have r: "rs__udp_recv_cb env conn nread buf
      = Some (Rs__unpack_scp_packet_seq_num buf # cs @ free_base buf, st)"
    by (simp add: rs__udp_recv_cb_def)
  have fb: "filter is_response (free_base buf) = []"
    by (simp add: free_base_def)
  from recv_scan_result [OF sc]
  have "length (filter is_response cs) \<le> 1
       \<and> (\<forall>j. j < unat (n_outstanding conn) \<and> matches conn ?seq j
              \<and> (\<forall>k < j. \<not> matches conn ?seq k) \<longrightarrow>
            filter is_response cs = [Rs__process_response j ?b]
            \<and> st = rs__process_response env conn j ?b)"
  proof
    assume "cs = [] \<and> st = conn
      \<and> (\<forall>j. 0 \<le> j \<and> j < unat (n_outstanding conn) \<longrightarrow> \<not> matches conn ?seq j)"
    then show ?thesis by auto
  next
    assume "\<exists>j. 0 \<le> j \<and> j < unat (n_outstanding conn) \<and> matches conn ?seq j
         \<and> (\<forall>k. 0 \<le> k \<and> k < j \<longrightarrow> \<not> matches conn ?seq k)
         \<and> cs = [Rs__process_response j ?b]
         \<and> st = rs__process_response env conn j ?b"
    then obtain j0 where j0: "j0 < unat (n_outstanding conn)" "matches conn ?seq j0"
      "\<forall>k < j0. \<not> matches conn ?seq k" "cs = [Rs__process_response j0 ?b]"
      "st = rs__process_response env conn j0 ?b"
      by auto
    have uniq: "j = j0"
      if m: "matches conn ?seq j" and f: "\<forall>k < j. \<not> matches conn ?seq k" for j
    proof (rule linorder_cases [of j j0])
      assume "j < j0"
      with j0(3) m show ?thesis by blast
    next
      assume "j = j0"
      then show ?thesis .
    next
      assume "j0 < j"
      with f j0(2) show ?thesis by blast
    qed
    from j0(4) have one: "filter is_response cs = [Rs__process_response j0 ?b]"
      by simp
    show ?thesis
    proof (intro conjI allI impI)
      from one show "length (filter is_response cs) \<le> 1" by simp
    next
      fix j
      assume "j < unat (n_outstanding conn) \<and> matches conn ?seq j
              \<and> (\<forall>k < j. \<not> matches conn ?seq k)"
      then have "j = j0" using uniq by blast
      with one show "filter is_response cs = [Rs__process_response j ?b]" by simp
      from \<open>j = j0\<close> j0(5) show "st = rs__process_response env conn j ?b" by simp
    qed
  qed
  with r fb show ?thesis by simp
qed

theorem udp_recv_cb_first_match_only_witness:
  "int (RS__SIZEOF_SCP_PACKET (run_env 0 14 False) 0 0) \<le> 14
   \<and> unat (n_outstanding pool3) \<le> length (outstanding pool3)
   \<and> matches pool3 (rs__unpack_scp_packet_seq_num (run_env 0 14 False) (dgram 7)) 1
   \<and> matches pool3 (rs__unpack_scp_packet_seq_num (run_env 0 14 False) (dgram 7)) 2
   \<and> (\<exists>calls st. rs__udp_recv_cb (run_env 0 14 False) pool3 14 (dgram 7) = Some (calls, st)
         \<and> filter is_response calls = [Rs__process_response 1 ((dgram 7)\<lparr>len := 14\<rparr>)]
         \<and> length (filter is_response calls) \<le> 1)"
proof -
  have m: "int (RS__SIZEOF_SCP_PACKET (run_env 0 14 False) 0 0) \<le> 14"
    by (simp add: run_env_def)
  have m2: "matches pool3 7 2"
    by (simp add: matches_def chan_def pool3_def conn_of_def busy_chan_def)
  have first: "1 < unat (n_outstanding pool3)
     \<and> matches pool3 (rs__unpack_scp_packet_seq_num (run_env 0 14 False) (dgram 7)) 1
     \<and> (\<forall>k < 1. \<not> matches pool3 (rs__unpack_scp_packet_seq_num (run_env 0 14 False) (dgram 7)) k)"
    by (simp add: unpack_dgram pool3_matches_7 pool3_size)
  from udp_recv_cb_first_match_only [OF m pool3_ok, of "dgram 7"]
  obtain calls st where
    r: "rs__udp_recv_cb (run_env 0 14 False) pool3 14 (dgram 7) = Some (calls, st)"
    and le: "length (filter is_response calls) \<le> 1"
    and f: "\<forall>j. j < unat (n_outstanding pool3)
              \<and> matches pool3 (rs__unpack_scp_packet_seq_num (run_env 0 14 False) (dgram 7)) j
              \<and> (\<forall>k < j. \<not> matches pool3
                     (rs__unpack_scp_packet_seq_num (run_env 0 14 False) (dgram 7)) k) \<longrightarrow>
            filter is_response calls = [Rs__process_response j ((dgram 7)\<lparr>len := nat 14\<rparr>)]
            \<and> st = rs__process_response (run_env 0 14 False) pool3 j
                     ((dgram 7)\<lparr>len := nat 14\<rparr>)"
    by blast
  from f first have "filter is_response calls
      = [Rs__process_response 1 ((dgram 7)\<lparr>len := nat 14\<rparr>)]"
    by blast
  with r le m pool3_ok m2 first show ?thesis
    by (simp add: unpack_dgram)
qed

text \<open>
  C10. When \<open>malloc\<close> fails, \<open>rs__udp_recv_alloc_cb\<close> reports a null base with length
  0. A delivery into that buffer cannot carry more bytes than it holds, so its length
  is at most 0 (libuv reports an error, a negative length); with a smallest packet that
  is not empty, \<open>rs__udp_recv_cb\<close> then makes no call at all: it unpacks nothing,
  reaches no channel and frees nothing. In general the receive callback frees the
  buffer exactly when its base is not null.
\<close>

theorem recv_alloc_failure_tolerated:
  assumes "malloc env n = None"
  shows "rs__udp_recv_alloc_cb env n = \<lparr>base = None, len = 0\<rparr>
       \<and> (nread \<le> int (len (rs__udp_recv_alloc_cb env n))
            \<and> 0 < RS__SIZEOF_SCP_PACKET env 0 0 \<longrightarrow>
          rs__udp_recv_cb env conn nread (rs__udp_recv_alloc_cb env n) = Some ([], conn))
       \<and> (\<forall>buf calls st. rs__udp_recv_cb env conn nread buf = Some (calls, st) \<longrightarrow>
            (Free_base \<in> set calls \<longleftrightarrow> base buf \<noteq> None))"
proof (intro conjI allI impI)
  show a: "rs__udp_recv_alloc_cb env n = \<lparr>base = None, len = 0\<rparr>"
    using assms by (simp add: rs__udp_recv_alloc_cb_def)
  assume "nread \<le> int (len (rs__udp_recv_alloc_cb env n))
            \<and> 0 < RS__SIZEOF_SCP_PACKET env 0 0"
  with a show "rs__udp_recv_cb env conn nread (rs__udp_recv_alloc_cb env n) = Some ([], conn)"
    by (simp add: rs__udp_recv_cb_def free_base_def)
next
  fix buf calls st
  assume "rs__udp_recv_cb env conn nread buf = Some (calls, st)"
  then show "Free_base \<in> set calls \<longleftrightarrow> base buf \<noteq> None"
    by (rule udp_recv_cb_frees)
qed

theorem recv_alloc_failure_tolerated_witness:
  "malloc (run_env 0 14 True) 65536 = None
   \<and> rs__udp_recv_alloc_cb (run_env 0 14 True) 65536 = \<lparr>base = None, len = 0\<rparr>
   \<and> (- 105 :: int) \<le> int (len (rs__udp_recv_alloc_cb (run_env 0 14 True) 65536))
   \<and> 0 < RS__SIZEOF_SCP_PACKET (run_env 0 14 True) 0 0
   \<and> rs__udp_recv_cb (run_env 0 14 True) pool3 (- 105)
        (rs__udp_recv_alloc_cb (run_env 0 14 True) 65536) = Some ([], pool3)"
proof -
  have a: "malloc (run_env 0 14 True) 65536 = None"
    by (simp add: run_env_def)
  have p: "0 < RS__SIZEOF_SCP_PACKET (run_env 0 14 True) 0 0"
    by (simp add: run_env_def)
  from recv_alloc_failure_tolerated [OF a, of "- 105" pool3]
  have e: "rs__udp_recv_alloc_cb (run_env 0 14 True) 65536 = \<lparr>base = None, len = 0\<rparr>"
    and r: "(- 105 :: int) \<le> int (len (rs__udp_recv_alloc_cb (run_env 0 14 True) 65536))
            \<and> 0 < RS__SIZEOF_SCP_PACKET (run_env 0 14 True) 0 0 \<longrightarrow>
          rs__udp_recv_cb (run_env 0 14 True) pool3 (- 105)
            (rs__udp_recv_alloc_cb (run_env 0 14 True) 65536) = Some ([], pool3)"
    by blast+
  from e have l: "(- 105 :: int) \<le> int (len (rs__udp_recv_alloc_cb (run_env 0 14 True) 65536))"
    by simp
  from r l p have "rs__udp_recv_cb (run_env 0 14 True) pool3 (- 105)
            (rs__udp_recv_alloc_cb (run_env 0 14 True) 65536) = Some ([], pool3)"
    by blast
  with a e l p show ?thesis by blast
qed

end
